theory Spec2Isabelle
  imports Main "HOL-Library.Product_Lexorder" "HOL-Library.Multiset" "HOL-Library.Log_Nat"
begin

section \<open>Data model (alchemy/models.py)\<close>

text \<open>
  The tables of the store are modelled as they are declared in \<^verbatim>\<open>alchemy/models.py\<close>.
  UUID primary keys are natural numbers. A trader row is reduced to its \<^verbatim>\<open>balance\<close>,
  a position row to its \<^verbatim>\<open>quantity\<close>; the unique index on (trader_id, symbol_ticker)
  makes the positions table a map on that pair. The order and trade tables are lists in
  insertion order. The \<^verbatim>\<open>id\<close> and \<^verbatim>\<open>timestamp\<close> columns of a trade are filled
  by column defaults and are left out.

  \<^verbatim>\<open>balance\<close> and \<^verbatim>\<open>quantity\<close> are \<^verbatim>\<open>Float\<close> columns: they hold IEEE doubles,
  and Python computes on them in doubles. Every value they receive is a sum or a difference
  of integers, rounded to a double, and such a value is again an integer; so a column value
  is modelled by the integer it equals, and every operation on it rounds as the double
  arithmetic does (section on column types below). \<^verbatim>\<open>amount\<close>, \<^verbatim>\<open>filled\<close> and
  \<^verbatim>\<open>price\<close> of an order are \<^verbatim>\<open>Integer\<close> columns of 32 bits; in Python they are
  unbounded integers, and the range is enforced when a row is written. The amount and the
  price of a trade are \<^verbatim>\<open>Float\<close> columns that receive the amount and the price of an
  order row, which a double holds exactly.
\<close>

datatype OrderSide = ASK | BID

datatype OrderStatus = NEW | EXECUTED | PARTIALLY_EXECUTED | CANCELLED

type_synonym uuid = nat
type_synonym ticker = string

record order =
  oid :: uuid
  trader_id :: uuid
  symbol_ticker :: ticker
  amount :: int
  filled :: int
  price :: "int option"
  direction :: OrderSide
  status :: OrderStatus
  created_at :: nat

record trade =
  trader_from_id :: uuid
  trader_to_id :: uuid
  trade_ticker :: ticker
  trade_amount :: int
  trade_price :: int

record db =
  traders :: "uuid \<rightharpoonup> int"
  positions :: "(uuid \<times> ticker) \<rightharpoonup> int"
  orders :: "order list"
  trades :: "trade list"

text \<open>
  Every exception the modelled functions can raise. \<open>AttributeError\<close> is Python's
  error on reading a field of \<^verbatim>\<open>None\<close> (a row that a query did not find),
  \<open>TypeError\<close> its error on comparing or multiplying with a \<^verbatim>\<open>None\<close> price,
  \<open>DataError\<close> the error of the database driver on a value outside the range of its column.
\<close>

datatype error =
    NotEnoughBalance
  | NotEnoughInstruments
  | OrderNotEnoughAmount
  | TraderNotEnough
  | NotEnoughOrders
  | AttributeError
  | TypeError
  | OrderFinal
  | OrderIsMarket
  | BalanceNegative
  | DataError

section \<open>Column types (alchemy/models.py)\<close>

text \<open>
  \<^verbatim>\<open>float(x)\<close> for an integer \<open>x\<close>: the nearest double, ties to the even significand.
  A double has 53 significant bits, so an integer below \<open>2 ^ 53\<close> in magnitude is kept,
  and a larger one is rounded to a multiple of \<open>2 ^ (bitlen m - 53)\<close>. The model is
  that of the finite doubles: it leaves out the end of the exponent range at \<open>2 ^ 1024\<close>
  (an integer of more than 308 digits), which no amount or price of an order row reaches.
\<close>

definition round_magnitude :: "int \<Rightarrow> int" where
  "round_magnitude m =
     (if m < 2 ^ 53 then m
      else (let u = 2 ^ nat (bitlen m - 53); q = m div u; r = m mod u
            in if 2 * r < u \<or> (2 * r = u \<and> even q) then q * u else (q + 1) * u))"

text \<open>The unit in the last place of a magnitude of at least \<open>2 ^ 53\<close>.\<close>

definition ulp :: "int \<Rightarrow> int" where
  "ulp m = 2 ^ nat (bitlen m - 53)"

definition py_float :: "int \<Rightarrow> int" where
  "py_float x = (if x < 0 then - round_magnitude (- x) else round_magnitude x)"

text \<open>
  \<^verbatim>\<open>a + x\<close> and \<^verbatim>\<open>a - x\<close> for a float \<open>a\<close> and an integer \<open>x\<close>: Python converts
  \<open>x\<close> to a float and adds or subtracts in doubles, which rounds the exact result.
  A comparison of a float with an integer is exact in Python and needs no definition.
\<close>

definition float_add :: "int \<Rightarrow> int \<Rightarrow> int" where
  "float_add a x = py_float (a + py_float x)"

definition float_sub :: "int \<Rightarrow> int \<Rightarrow> int" where
  "float_sub a x = py_float (a - py_float x)"

text \<open>The range of a 32-bit \<^verbatim>\<open>Integer\<close> column, and an order row whose values fit it.\<close>

definition int32 :: "int \<Rightarrow> bool" where
  "int32 v = (- 2147483648 \<le> v \<and> v < 2147483648)"

definition fits_columns :: "order \<Rightarrow> bool" where
  "fits_columns ord =
     (int32 (amount ord) \<and> int32 (filled ord)
      \<and> (case price ord of None \<Rightarrow> True | Some p \<Rightarrow> int32 p))"

section \<open>Order book query (db_utils/order.py)\<close>

definition FINAL_ORDER_STATUSES :: "OrderStatus set" where
  "FINAL_ORDER_STATUSES = {PARTIALLY_EXECUTED, EXECUTED, CANCELLED}"

definition ACTIVE_ORDER_STATUSES :: "OrderStatus list" where
  "ACTIVE_ORDER_STATUSES = [NEW, PARTIALLY_EXECUTED]"

text \<open>
  The \<^verbatim>\<open>ORDER BY\<close> clause of \<^verbatim>\<open>__get_orders\<close>: descending price for the BID
  side, ascending price for the ASK side, then ascending \<^verbatim>\<open>created_at\<close>. The key is
  compared lexicographically. A null price sorts as larger than every number (first when
  descending, last when ascending). Rows with equal keys keep their table order.
\<close>

definition priority_key :: "OrderSide \<Rightarrow> order \<Rightarrow> int \<times> int \<times> nat" where
  "priority_key d ord =
     (case d of
        BID \<Rightarrow> (case price ord of None \<Rightarrow> (0, 0, created_at ord)
                                 | Some p \<Rightarrow> (1, - p, created_at ord))
      | ASK \<Rightarrow> (case price ord of None \<Rightarrow> (1, 0, created_at ord)
                                 | Some p \<Rightarrow> (0, p, created_at ord)))"

definition get_orders :: "db \<Rightarrow> ticker \<Rightarrow> OrderSide \<Rightarrow> nat \<Rightarrow> order list" where
  "get_orders s tk d limit =
     take limit (sort_key (priority_key d)
       (filter (\<lambda>ord. symbol_ticker ord = tk \<and> direction ord = d
                     \<and> status ord \<in> set ACTIVE_ORDER_STATUSES) (orders s)))"

text \<open>
  Writing a changed persistent order: the row with its primary key is rewritten. The flush
  inside \<^verbatim>\<open>partially_execute_order\<close> writes \<^verbatim>\<open>amount\<close> and \<^verbatim>\<open>filled\<close> and raises when
  a value does not fit its column. Adding a new order and committing inserts the row, and
  raises likewise.
\<close>

definition rewrite_order :: "db \<Rightarrow> order \<Rightarrow> db" where
  "rewrite_order s ord' =
     s\<lparr>orders := map (\<lambda>ord. if oid ord = oid ord' then ord' else ord) (orders s)\<rparr>"

definition flush_order :: "db \<Rightarrow> order \<Rightarrow> error + db" where
  "flush_order s ord' = (if fits_columns ord' then Inr (rewrite_order s ord') else Inl DataError)"

definition add_and_commit :: "db \<Rightarrow> order \<Rightarrow> error + (db \<times> order)" where
  "add_and_commit s ord =
     (if fits_columns ord then Inr (s\<lparr>orders := orders s @ [ord]\<rparr>, ord) else Inl DataError)"

section \<open>Settlement helpers (db_utils/order.py)\<close>

definition partially_execute_order :: "order \<Rightarrow> int \<Rightarrow> error + order" where
  "partially_execute_order ord amt =
     (if amount ord < amt then Inl OrderNotEnoughAmount
      else Inr (ord\<lparr>amount := amount ord - amt,
                    filled := filled ord + amt,
                    status := (if amount ord - amt = 0 then EXECUTED
                               else PARTIALLY_EXECUTED)\<rparr>))"

definition buy :: "db \<Rightarrow> uuid \<Rightarrow> uuid \<Rightarrow> ticker \<Rightarrow> int option \<Rightarrow> int \<Rightarrow> error + db" where
  "buy s seller_id buyer_id tk pr amt =
     (case traders s buyer_id of None \<Rightarrow> Inl AttributeError | Some buyer_balance \<Rightarrow>
     (case pr of None \<Rightarrow> Inl TypeError | Some p \<Rightarrow>
     (if buyer_balance < amt * p then Inl NotEnoughBalance else
     (case traders s seller_id of None \<Rightarrow> Inl AttributeError | Some seller_balance \<Rightarrow>
     (let s1 = s\<lparr>traders := (traders s)(seller_id \<mapsto> float_add seller_balance (amt * p))\<rparr> in
     (case traders s1 buyer_id of None \<Rightarrow> Inl AttributeError | Some b1 \<Rightarrow>
     (let s2 = s1\<lparr>traders := (traders s1)(buyer_id \<mapsto> float_sub b1 (amt * p))\<rparr> in
     (case positions s2 (buyer_id, tk) of None \<Rightarrow> Inl AttributeError | Some buyer_qty \<Rightarrow>
      Inr (s2\<lparr>positions := (positions s2)((buyer_id, tk) \<mapsto> float_add buyer_qty amt),
               trades := trades s2 @ [\<lparr>trader_from_id = seller_id, trader_to_id = buyer_id,
                                        trade_ticker = tk, trade_amount = amt,
                                        trade_price = p\<rparr>]\<rparr>)))))))))"

definition sell :: "db \<Rightarrow> uuid \<Rightarrow> uuid \<Rightarrow> ticker \<Rightarrow> int option \<Rightarrow> int \<Rightarrow> error + db" where
  "sell s seller_id buyer_id tk pr amt =
     (case positions s (seller_id, tk) of None \<Rightarrow> Inl AttributeError | Some seller_qty \<Rightarrow>
     (if seller_qty < amt then Inl NotEnoughInstruments else
     (case traders s seller_id of None \<Rightarrow> Inl AttributeError | Some seller_balance \<Rightarrow>
     (case pr of None \<Rightarrow> Inl TypeError | Some p \<Rightarrow>
     (let s1 = s\<lparr>traders := (traders s)(seller_id \<mapsto> float_add seller_balance (amt * p)),
                 positions := (positions s)((seller_id, tk) \<mapsto> float_sub seller_qty amt)\<rparr> in
     (case positions s1 (buyer_id, tk) of None \<Rightarrow> Inl AttributeError | Some buyer_qty \<Rightarrow>
      Inr (s1\<lparr>positions := (positions s1)((buyer_id, tk) \<mapsto> float_add buyer_qty amt),
               trades := trades s1 @ [\<lparr>trader_from_id = seller_id, trader_to_id = buyer_id,
                                        trade_ticker = tk, trade_amount = amt,
                                        trade_price = p\<rparr>]\<rparr>)))))))"

text \<open>
  \<^verbatim>\<open>freeze_balance\<close> and \<^verbatim>\<open>unfreeze_balance\<close>; \<open>base\<close> is the value of
  \<^verbatim>\<open>BASE_CURRENCY_TICKER\<close>, read from the environment at import time.
\<close>

definition freeze_balance :: "ticker \<Rightarrow> db \<Rightarrow> uuid \<Rightarrow> ticker \<Rightarrow> int \<Rightarrow> error + db" where
  "freeze_balance base s tid tk amt =
     (case traders s tid of None \<Rightarrow> Inl AttributeError | Some bal \<Rightarrow>
      if tk = base then
        (if bal < amt then Inl TraderNotEnough
         else Inr (s\<lparr>traders := (traders s)(tid \<mapsto> float_sub bal amt)\<rparr>))
      else
        (case positions s (tid, tk) of None \<Rightarrow> Inl AttributeError | Some qty \<Rightarrow>
         if qty < amt then Inl TraderNotEnough
         else Inr (s\<lparr>positions := (positions s)((tid, tk) \<mapsto> float_sub qty amt)\<rparr>)))"

definition unfreeze_balance :: "ticker \<Rightarrow> db \<Rightarrow> uuid \<Rightarrow> ticker \<Rightarrow> int \<Rightarrow> error + db" where
  "unfreeze_balance base s tid tk amt =
     (if tk = base then
        (case traders s tid of None \<Rightarrow> Inl AttributeError | Some bal \<Rightarrow>
         Inr (s\<lparr>traders := (traders s)(tid \<mapsto> float_add bal amt)\<rparr>))
      else
        (case positions s (tid, tk) of None \<Rightarrow> Inl AttributeError | Some qty \<Rightarrow>
         Inr (s\<lparr>positions := (positions s)((tid, tk) \<mapsto> float_add qty amt)\<rparr>)))"

section \<open>Ledger adjustment (db_utils/trader.py)\<close>

text \<open>
  \<^verbatim>\<open>__change_balance\<close>. In the instrument branch the loop over the trader's positions
  changes the matching row and leaves the store unchanged, without an error, when the
  trader has no row for the ticker. The test \<^verbatim>\<open>new_balance < 0\<close> is made on the sum as
  the double arithmetic computes it, and that sum is stored.
\<close>

definition change_balance :: "ticker \<Rightarrow> db \<Rightarrow> uuid \<Rightarrow> ticker \<Rightarrow> int \<Rightarrow> error + db" where
  "change_balance base s tid tk amt =
     (case traders s tid of None \<Rightarrow> Inl AttributeError | Some bal \<Rightarrow>
      if tk = base then
        (if float_add bal amt < 0 then Inl BalanceNegative
         else Inr (s\<lparr>traders := (traders s)(tid \<mapsto> float_add bal amt)\<rparr>))
      else
        (case positions s (tid, tk) of None \<Rightarrow> Inr s | Some qty \<Rightarrow>
         if float_add qty amt < 0 then Inl BalanceNegative
         else Inr (s\<lparr>positions := (positions s)((tid, tk) \<mapsto> float_add qty amt)\<rparr>)))"

text \<open>\<^verbatim>\<open>change_trader_balance\<close>: the admin deposit and withdraw; an error commits nothing.\<close>

definition change_trader_balance :: "ticker \<Rightarrow> db \<Rightarrow> uuid \<Rightarrow> ticker \<Rightarrow> int \<Rightarrow> error + db" where
  "change_trader_balance base s tid tk amt = change_balance base s tid tk amt"

section \<open>Order submission (db_utils/order.py)\<close>

text \<open>
  The loop condition \<^verbatim>\<open>price is not None and matching_order.price > price\<close> and its
  mirror image for a sell; comparing a null resting price with a number raises.
\<close>

definition buy_gate :: "int option \<Rightarrow> order \<Rightarrow> error + bool" where
  "buy_gate pr m =
     (case pr of None \<Rightarrow> Inr False
      | Some p \<Rightarrow> (case price m of None \<Rightarrow> Inl TypeError | Some mp \<Rightarrow> Inr (mp > p)))"

definition sell_gate :: "int option \<Rightarrow> order \<Rightarrow> error + bool" where
  "sell_gate pr m =
     (case pr of None \<Rightarrow> Inr False
      | Some p \<Rightarrow> (case price m of None \<Rightarrow> Inl TypeError | Some mp \<Rightarrow> Inr (mp < p)))"

text \<open>
  The two \<^verbatim>\<open>for matching_order in orderbook\<close> iterations. The state carries the flushed
  changes; \<open>new_order\<close> is the transient incoming order, not yet in the store, so only
  the change of the resting order is written by the flush of \<^verbatim>\<open>partially_execute_order\<close>.
\<close>

fun match_buy ::
  "db \<Rightarrow> uuid \<Rightarrow> ticker \<Rightarrow> int option \<Rightarrow> order \<Rightarrow> order list \<Rightarrow> error + (db \<times> order)" where
  "match_buy s trader tk pr new_order [] = Inr (s, new_order)"
| "match_buy s trader tk pr new_order (m # ms) =
     (if amount new_order = 0 then Inr (s, new_order)
      else (case buy_gate pr m of Inl e \<Rightarrow> Inl e
      | Inr stop \<Rightarrow>
          (if stop then Inr (s, new_order)
           else (let quantity_to_buy = min (amount m) (amount new_order) in
            (case buy s (trader_id m) trader tk (price m) quantity_to_buy of Inl e \<Rightarrow> Inl e
             | Inr s1 \<Rightarrow>
            (case partially_execute_order m quantity_to_buy of Inl e \<Rightarrow> Inl e
             | Inr m' \<Rightarrow>
            (case flush_order s1 m' of Inl e \<Rightarrow> Inl e
             | Inr s2 \<Rightarrow>
            (case partially_execute_order new_order quantity_to_buy of Inl e \<Rightarrow> Inl e
             | Inr new_order' \<Rightarrow>
                 match_buy s2 trader tk pr new_order' ms))))))))"

fun match_sell ::
  "db \<Rightarrow> uuid \<Rightarrow> ticker \<Rightarrow> int option \<Rightarrow> order \<Rightarrow> order list \<Rightarrow> error + (db \<times> order)" where
  "match_sell s trader tk pr new_order [] = Inr (s, new_order)"
| "match_sell s trader tk pr new_order (m # ms) =
     (if amount new_order = 0 then Inr (s, new_order)
      else (case sell_gate pr m of Inl e \<Rightarrow> Inl e
      | Inr stop \<Rightarrow>
          (if stop then Inr (s, new_order)
           else (let quantity_to_sell = min (amount m) (amount new_order) in
            (case sell s trader (trader_id m) tk (price m) quantity_to_sell of Inl e \<Rightarrow> Inl e
             | Inr s1 \<Rightarrow>
            (case partially_execute_order m quantity_to_sell of Inl e \<Rightarrow> Inl e
             | Inr m' \<Rightarrow>
            (case flush_order s1 m' of Inl e \<Rightarrow> Inl e
             | Inr s2 \<Rightarrow>
            (case partially_execute_order new_order quantity_to_sell of Inl e \<Rightarrow> Inl e
             | Inr new_order' \<Rightarrow>
                 match_sell s2 trader tk pr new_order' ms))))))))"

text \<open>
  The body of the \<^verbatim>\<open>try\<close> block up to \<^verbatim>\<open>session.add(new_order)\<close>: the loop, then the
  freeze of the remainder of a limit order, or the exception for a market order that was
  not executed in full.
\<close>

definition try_buy ::
  "ticker \<Rightarrow> db \<Rightarrow> uuid \<Rightarrow> ticker \<Rightarrow> int option \<Rightarrow> order \<Rightarrow> order list \<Rightarrow> error + (db \<times> order)" where
  "try_buy base s trader tk pr new_order orderbook =
     (case match_buy s trader tk pr new_order orderbook of Inl e \<Rightarrow> Inl e
      | Inr (s1, n) \<Rightarrow>
          if status n \<noteq> EXECUTED then
            (case pr of None \<Rightarrow> Inl NotEnoughOrders
             | Some _ \<Rightarrow>
                 (case price n of None \<Rightarrow> Inl TypeError
                  | Some p \<Rightarrow>
                      (case freeze_balance base s1 trader base (amount n * p) of
                         Inl e \<Rightarrow> Inl e
                       | Inr s2 \<Rightarrow> Inr (s2, n))))
          else Inr (s1, n))"

definition try_sell ::
  "ticker \<Rightarrow> db \<Rightarrow> uuid \<Rightarrow> ticker \<Rightarrow> int option \<Rightarrow> order \<Rightarrow> order list \<Rightarrow> error + (db \<times> order)" where
  "try_sell base s trader tk pr new_order orderbook =
     (case match_sell s trader tk pr new_order orderbook of Inl e \<Rightarrow> Inl e
      | Inr (s1, n) \<Rightarrow>
          if status n \<noteq> EXECUTED then
            (case pr of None \<Rightarrow> Inl NotEnoughOrders
             | Some _ \<Rightarrow>
                 (case freeze_balance base s1 trader tk (amount n) of Inl e \<Rightarrow> Inl e
                  | Inr s2 \<Rightarrow> Inr (s2, n)))
          else Inr (s1, n))"

text \<open>
  \<^verbatim>\<open>create_limit_buy_order\<close> and \<^verbatim>\<open>create_limit_sell_order\<close>. The fresh primary key
  \<open>new_id\<close> and the insertion time \<open>now\<close> stand for the column defaults. The
  \<^verbatim>\<open>try\<close> block ends with the insertion of the new order and the commit; on any exception
  in the block, the failing insertion included, the transaction is rolled back to \<open>s\<close>
  and the handler inserts the cancelled order. When that insertion raises too, the function
  raises and the store stays \<open>s\<close>: the result \<open>Inl\<close>. The limit of the query is the
  requested quantity, which the request schema keeps positive (and does not bound above).
\<close>

definition create_limit_buy_order ::
  "ticker \<Rightarrow> db \<Rightarrow> ticker \<Rightarrow> int \<Rightarrow> int option \<Rightarrow> uuid \<Rightarrow> uuid \<Rightarrow> nat
     \<Rightarrow> error + (db \<times> order)" where
  "create_limit_buy_order base s tk quantity pr trader new_id now =
     (let orderbook = get_orders s tk ASK (nat quantity);
          new_order = \<lparr>oid = new_id, trader_id = trader, symbol_ticker = tk,
                       amount = quantity, filled = 0, price = pr, direction = BID,
                       status = NEW, created_at = now\<rparr>
      in case (case try_buy base s trader tk pr new_order orderbook of
                 Inl e \<Rightarrow> Inl e
               | Inr (s', n) \<Rightarrow> add_and_commit s' n) of
           Inr r \<Rightarrow> Inr r
         | Inl e \<Rightarrow>
             add_and_commit s (new_order\<lparr>filled := 0, amount := quantity, status := CANCELLED\<rparr>))"

definition create_limit_sell_order ::
  "ticker \<Rightarrow> db \<Rightarrow> ticker \<Rightarrow> int \<Rightarrow> int option \<Rightarrow> uuid \<Rightarrow> uuid \<Rightarrow> nat
     \<Rightarrow> error + (db \<times> order)" where
  "create_limit_sell_order base s tk quantity pr trader new_id now =
     (let orderbook = get_orders s tk BID (nat quantity);
          new_order = \<lparr>oid = new_id, trader_id = trader, symbol_ticker = tk,
                       amount = quantity, filled = 0, price = pr, direction = ASK,
                       status = NEW, created_at = now\<rparr>
      in case (case try_sell base s trader tk pr new_order orderbook of
                 Inl e \<Rightarrow> Inl e
               | Inr (s', n) \<Rightarrow> add_and_commit s' n) of
           Inr r \<Rightarrow> Inr r
         | Inl e \<Rightarrow>
             add_and_commit s (new_order\<lparr>filled := 0, amount := quantity, status := CANCELLED\<rparr>))"

definition create_market_buy_order ::
  "ticker \<Rightarrow> db \<Rightarrow> ticker \<Rightarrow> int \<Rightarrow> uuid \<Rightarrow> uuid \<Rightarrow> nat \<Rightarrow> error + (db \<times> order)" where
  "create_market_buy_order base s tk quantity trader new_id now =
     create_limit_buy_order base s tk quantity None trader new_id now"

definition create_market_sell_order ::
  "ticker \<Rightarrow> db \<Rightarrow> ticker \<Rightarrow> int \<Rightarrow> uuid \<Rightarrow> uuid \<Rightarrow> nat \<Rightarrow> error + (db \<times> order)" where
  "create_market_sell_order base s tk quantity trader new_id now =
     create_limit_sell_order base s tk quantity None trader new_id now"

section \<open>Order cancellation (db_utils/order.py)\<close>

text \<open>
  \<^verbatim>\<open>cancel_order\<close> returns \<^verbatim>\<open>None\<close> when the trader owns no order with the id
  (the endpoint answers 404), raises for a final status or a market order, and otherwise
  refunds and commits. Only the status of the order changes, so the update writes no
  \<^verbatim>\<open>Integer\<close> column.
\<close>

definition cancel_order :: "ticker \<Rightarrow> db \<Rightarrow> uuid \<Rightarrow> uuid \<Rightarrow> error + (db \<times> order option)" where
  "cancel_order base s order_id tid =
     (case find (\<lambda>ord. oid ord = order_id \<and> trader_id ord = tid) (orders s) of
        None \<Rightarrow> Inr (s, None)
      | Some ord \<Rightarrow>
          (if status ord \<in> FINAL_ORDER_STATUSES then Inl OrderFinal
           else (case price ord of None \<Rightarrow> Inl OrderIsMarket
           | Some p \<Rightarrow>
              (case (case direction ord of
                       ASK \<Rightarrow> change_balance base s (trader_id ord) (symbol_ticker ord) (amount ord)
                     | BID \<Rightarrow> change_balance base s (trader_id ord) base (amount ord * p)) of
                 Inl e \<Rightarrow> Inl e
               | Inr s1 \<Rightarrow> Inr (rewrite_order s1 (ord\<lparr>status := CANCELLED\<rparr>),
                                Some (ord\<lparr>status := CANCELLED\<rparr>))))))"

section \<open>Order response (api/v1/order/order.py)\<close>

text \<open>
  The \<^verbatim>\<open>qty\<close> field of \<^verbatim>\<open>_format_order_response\<close>: the remaining amount plus the
  filled amount.
\<close>

definition qty :: "order \<Rightarrow> int" where
  "qty ord = amount ord + filled ord"

section \<open>Order book endpoint (api/v1/public/public.py)\<close>

text \<open>
  \<^verbatim>\<open>aggregate_orders\<close> inside \<^verbatim>\<open>get_orderbook\<close>. The public \<^verbatim>\<open>get_orders\<close> runs the
  query of \<^verbatim>\<open>__get_orders\<close> in a session of its own. The \<^verbatim>\<open>defaultdict(int)\<close> is an
  association list in insertion order; \<^verbatim>\<open>if order.price\<close> skips an order whose price is
  null or zero. The items are sorted as pairs, in reverse for the BID side.
\<close>

definition add_level :: "(int \<times> int) list \<Rightarrow> order \<Rightarrow> (int \<times> int) list" where
  "add_level aggregated ord =
     (case price ord of None \<Rightarrow> aggregated
      | Some p \<Rightarrow>
          (if p = 0 then aggregated
           else (case map_of aggregated p of
                   None \<Rightarrow> aggregated @ [(p, 0 + amount ord)]
                 | Some v \<Rightarrow> map (\<lambda>(k, w). if k = p then (k, w + amount ord) else (k, w))
                              aggregated)))"

definition aggregate_orders :: "db \<Rightarrow> ticker \<Rightarrow> OrderSide \<Rightarrow> nat \<Rightarrow> (int \<times> int) list" where
  "aggregate_orders s tk d limit =
     (let aggregated = foldl add_level [] (get_orders s tk d limit);
          sorted_items = sort aggregated
      in if d = BID then rev sorted_items else sorted_items)"

definition get_orderbook :: "db \<Rightarrow> ticker \<Rightarrow> nat \<Rightarrow> (int \<times> int) list \<times> (int \<times> int) list" where
  "get_orderbook s tk limit =
     (aggregate_orders s tk BID limit, aggregate_orders s tk ASK limit)"

section \<open>Constraints of the schema and ledger invariants\<close>

text \<open>
  The foreign key of \<^verbatim>\<open>orders.trader_id\<close>: the owner of every stored order has a trader
  row.
\<close>

definition owners_exist :: "db \<Rightarrow> bool" where
  "owners_exist s = (\<forall>ord \<in> set (orders s). traders s (trader_id ord) \<noteq> None)"

text \<open>No balance and no position quantity is negative.\<close>

definition ledger_nonneg :: "db \<Rightarrow> bool" where
  "ledger_nonneg s =
     ((\<forall>t b. traders s t = Some b \<longrightarrow> 0 \<le> b) \<and> (\<forall>k q. positions s k = Some q \<longrightarrow> 0 \<le> q))"

text \<open>No stored order has a negative amount or a negative price.\<close>

definition book_nonneg :: "db \<Rightarrow> bool" where
  "book_nonneg s =
     (\<forall>ord \<in> set (orders s). 0 \<le> amount ord \<and> (\<forall>p. price ord = Some p \<longrightarrow> 0 \<le> p))"

text \<open>
  The type of the \<^verbatim>\<open>Float\<close> columns: every balance and every position quantity is a
  double, a value that \<^verbatim>\<open>float\<close> leaves as it is.
\<close>

definition ledger_floats :: "db \<Rightarrow> bool" where
  "ledger_floats s =
     ((\<forall>t b. traders s t = Some b \<longrightarrow> py_float b = b)
      \<and> (\<forall>k q. positions s k = Some q \<longrightarrow> py_float q = q))"



section \<open>The matching walk as the specification writes it\<close>

text \<open>
  The loop of section 4.3 of the specification, reduced to what it fills: walking the
  candidates with a running remainder, it stops when the remainder is zero or when the
  candidate's price crosses the limit of the incoming order, and otherwise pairs the
  candidate with \<open>min (amount m) remaining\<close>.
\<close>

definition crosses :: "OrderSide \<Rightarrow> int option \<Rightarrow> order \<Rightarrow> bool" where
  "crosses side pr m =
     (case (pr, price m) of
        (Some p, Some mp) \<Rightarrow> (if side = BID then mp > p else mp < p)
      | _ \<Rightarrow> False)"

fun spec_fills :: "OrderSide \<Rightarrow> int option \<Rightarrow> int \<Rightarrow> order list \<Rightarrow> (order \<times> int) list" where
  "spec_fills side pr remaining [] = []"
| "spec_fills side pr remaining (m # ms) =
     (if remaining = 0 then []
      else if crosses side pr m then []
      else (m, min (amount m) remaining)
             # spec_fills side pr (remaining - min (amount m) remaining) ms)"

section \<open>The reservation protocol as the specification writes it\<close>








section \<open>Example stores\<close>

text \<open>
  A book with two resting asks (3 at 10, then 4 at 11) owned by traders 1 and 2, and a
  trader 3 with 200 of cash.
\<close>

definition two_asks :: db where
  "two_asks =
     \<lparr>traders = [1 \<mapsto> 0, 2 \<mapsto> 0, 3 \<mapsto> 200],
      positions = [(1, ''BBB'') \<mapsto> 0, (2, ''BBB'') \<mapsto> 0, (3, ''BBB'') \<mapsto> 0],
      orders = [\<lparr>oid = 10, trader_id = 1, symbol_ticker = ''BBB'', amount = 3, filled = 0,
                   price = Some 10, direction = ASK, status = NEW, created_at = 1\<rparr>,
                \<lparr>oid = 11, trader_id = 2, symbol_ticker = ''BBB'', amount = 4, filled = 0,
                   price = Some 11, direction = ASK, status = NEW, created_at = 2\<rparr>],
      trades = []\<rparr>"

text \<open>
  A book with one resting ask (2 at 50) owned by trader 2, and a trader 1 with 1000 of cash.
\<close>

definition one_ask :: db where
  "one_ask =
     \<lparr>traders = [1 \<mapsto> 1000, 2 \<mapsto> 0],
      positions = [(1, ''CCC'') \<mapsto> 0, (2, ''CCC'') \<mapsto> 0],
      orders = [\<lparr>oid = 10, trader_id = 2, symbol_ticker = ''CCC'', amount = 2, filled = 0,
                   price = Some 50, direction = ASK, status = NEW, created_at = 1\<rparr>],
      trades = []\<rparr>"

text \<open>An empty book; trader 1 holds 100 of cash and 10 units of DDD.\<close>

definition no_orders :: db where
  "no_orders =
     \<lparr>traders = [1 \<mapsto> 100], positions = [(1, ''DDD'') \<mapsto> 10], orders = [], trades = []\<rparr>"

text \<open>
  An empty book; trader 1 holds \<open>2 ^ 53 + 2\<close> of cash, which a double holds exactly, and
  10 units of DDD.
\<close>

definition large_balance :: db where
  "large_balance =
     \<lparr>traders = [1 \<mapsto> 9007199254740994], positions = [(1, ''DDD'') \<mapsto> 10], orders = [],
      trades = []\<rparr>"

text \<open>Two resting asks at the same price 10 (3 and 4 units), owned by trader 1.\<close>

definition same_price_asks :: db where
  "same_price_asks =
     \<lparr>traders = [1 \<mapsto> 0], positions = [(1, ''AAA'') \<mapsto> 0],
      orders = [\<lparr>oid = 10, trader_id = 1, symbol_ticker = ''AAA'', amount = 3, filled = 0,
                   price = Some 10, direction = ASK, status = NEW, created_at = 1\<rparr>,
                \<lparr>oid = 11, trader_id = 1, symbol_ticker = ''AAA'', amount = 4, filled = 0,
                   price = Some 10, direction = ASK, status = NEW, created_at = 2\<rparr>],
      trades = []\<rparr>"

text \<open>
  Orders of trader 1 and trader 2 in every status, and a priceless order with status NEW
  (a row the order table admits, since the price column is nullable).
\<close>

definition mixed_book :: db where
  "mixed_book =
     \<lparr>traders = [1 \<mapsto> 50, 2 \<mapsto> 0],
      positions = [(1, ''AAA'') \<mapsto> 0, (2, ''AAA'') \<mapsto> 5],
      orders = [\<lparr>oid = 20, trader_id = 1, symbol_ticker = ''AAA'', amount = 2, filled = 0,
                   price = Some 10, direction = BID, status = NEW, created_at = 1\<rparr>,
                \<lparr>oid = 21, trader_id = 2, symbol_ticker = ''AAA'', amount = 1, filled = 2,
                   price = Some 12, direction = ASK, status = PARTIALLY_EXECUTED,
                   created_at = 2\<rparr>,
                \<lparr>oid = 22, trader_id = 2, symbol_ticker = ''AAA'', amount = 0, filled = 3,
                   price = Some 9, direction = ASK, status = EXECUTED, created_at = 3\<rparr>,
                \<lparr>oid = 23, trader_id = 1, symbol_ticker = ''AAA'', amount = 4, filled = 0,
                   price = Some 5, direction = BID, status = CANCELLED, created_at = 4\<rparr>,
                \<lparr>oid = 24, trader_id = 1, symbol_ticker = ''AAA'', amount = 3, filled = 0,
                   price = None, direction = BID, status = NEW, created_at = 5\<rparr>],
      trades = []\<rparr>"

text \<open>
  Two resting bids at price 50 of 3 units each; the bid of trader 1 is the older one but
  the later row of the table. Trader 3 holds 4 units of EEE.
\<close>

definition two_bids :: db where
  "two_bids =
     \<lparr>traders = [1 \<mapsto> 0, 2 \<mapsto> 0, 3 \<mapsto> 0],
      positions = [(1, ''EEE'') \<mapsto> 0, (2, ''EEE'') \<mapsto> 0, (3, ''EEE'') \<mapsto> 4],
      orders = [\<lparr>oid = 31, trader_id = 2, symbol_ticker = ''EEE'', amount = 3, filled = 0,
                   price = Some 50, direction = BID, status = NEW, created_at = 2\<rparr>,
                \<lparr>oid = 30, trader_id = 1, symbol_ticker = ''EEE'', amount = 3, filled = 0,
                   price = Some 50, direction = BID, status = NEW, created_at = 1\<rparr>],
      trades = []\<rparr>"

section \<open>Facts about the double arithmetic\<close>

lemma div_mult_le_int: "0 < (u::int) \<Longrightarrow> (m div u) * u \<le> m"
  using div_mult_mod_eq[of m u] pos_mod_sign[of u m] by linarith

lemma ulp_pos: "0 < ulp m" by (simp add: ulp_def)

lemma ulp_bounds:
  assumes "2 ^ 53 \<le> m"
  shows "2 ^ 52 * ulp m \<le> m" "m < 2 ^ 53 * ulp m" "2 \<le> ulp m"
proof -
  have m0: "0 < m" using assms by (smt (verit) zero_less_power)
  have L: "54 \<le> bitlen m" using assms by (simp add: bitlen_ge_iff_power)
  from bitlen_bounds[OF m0] have b: "2 ^ nat (bitlen m - 1) \<le> m" "m < 2 ^ nat (bitlen m)" by auto
  have e1: "nat (bitlen m - 1) = 52 + nat (bitlen m - 53)" using L by simp
  have e2: "nat (bitlen m) = 53 + nat (bitlen m - 53)" using L by simp
  show "2 ^ 52 * ulp m \<le> m" using b(1) unfolding e1 ulp_def by (simp add: power_add)
  show "m < 2 ^ 53 * ulp m" using b(2) unfolding e2 ulp_def by (simp add: power_add)
  have "1 \<le> nat (bitlen m - 53)" using L by simp
  then have "(2::int) ^ 1 \<le> 2 ^ nat (bitlen m - 53)" by (intro power_increasing) simp_all
  then show "2 \<le> ulp m" by (simp add: ulp_def)
qed

lemma round_magnitude_small: "m < 2 ^ 53 \<Longrightarrow> round_magnitude m = m"
  by (simp add: round_magnitude_def)

lemma round_magnitude_cases:
  assumes "2 ^ 53 \<le> m"
  shows "round_magnitude m = (m div ulp m) * ulp m \<or> round_magnitude m = (m div ulp m + 1) * ulp m"
  using assms by (auto simp: round_magnitude_def Let_def ulp_def)

lemma round_magnitude_exact:
  assumes "2 ^ 53 \<le> m" "ulp m dvd m"
  shows "round_magnitude m = m"
proof -
  have "m mod ulp m = 0" using assms(2) by simp
  then show ?thesis using assms ulp_pos[of m]
    by (simp add: round_magnitude_def Let_def ulp_def[symmetric])
qed



lemma div_ulp_bounds:
  assumes "2 ^ 53 \<le> m"
  shows "2 ^ 52 \<le> m div ulp m" "m div ulp m < 2 ^ 53"
proof -
  note b = ulp_bounds[OF assms] and u = ulp_pos[of m]
  have "2 ^ 52 * ulp m div ulp m \<le> m div ulp m"
    using b(1) by (rule zdiv_mono1) (rule u)
  then show "2 ^ 52 \<le> m div ulp m" using u by simp
  have "(m div ulp m) * ulp m \<le> m" using u by (rule div_mult_le_int)
  then have "(m div ulp m) * ulp m < 2 ^ 53 * ulp m" using b(2) by linarith
  then show "m div ulp m < 2 ^ 53" using u by (simp add: mult_less_cancel_right)
qed

lemma round_magnitude_bounds:
  assumes "2 ^ 53 \<le> m"
  shows "2 ^ 52 * ulp m \<le> round_magnitude m" "round_magnitude m \<le> 2 ^ 53 * ulp m"
    "ulp m dvd round_magnitude m"
proof -
  note d = div_ulp_bounds[OF assms] and u = ulp_pos[of m]
  from round_magnitude_cases[OF assms]
  have c: "round_magnitude m = (m div ulp m) * ulp m \<or> round_magnitude m = (m div ulp m + 1) * ulp m" .
  have a: "2 ^ 52 * ulp m \<le> (m div ulp m) * ulp m"
    using d(1) u by (intro mult_right_mono) simp_all
  have a': "(m div ulp m) * ulp m \<le> (m div ulp m + 1) * ulp m"
    using u by (intro mult_right_mono) simp_all
  have b: "(m div ulp m + 1) * ulp m \<le> 2 ^ 53 * ulp m"
    using d(2) u by (intro mult_right_mono) simp_all
  show "2 ^ 52 * ulp m \<le> round_magnitude m" using c a a' by auto
  show "round_magnitude m \<le> 2 ^ 53 * ulp m" using c a' b by auto
  show "ulp m dvd round_magnitude m" using c by auto
qed

lemma round_magnitude_nonneg: "0 \<le> m \<Longrightarrow> 0 \<le> round_magnitude m"
proof (cases "m < 2 ^ 53")
  case True
  assume "0 \<le> m"
  then show ?thesis using True by (simp add: round_magnitude_small)
next
  case False
  then have "2 ^ 53 \<le> m" by simp
  from round_magnitude_bounds(1)[OF this] ulp_pos[of m]
  have "0 \<le> 2 ^ 52 * ulp m" "2 ^ 52 * ulp m \<le> round_magnitude m" by simp_all
  then show ?thesis by linarith
qed

lemma round_magnitude_pos: "0 < m \<Longrightarrow> 0 < round_magnitude m"
proof (cases "m < 2 ^ 53")
  case True
  assume "0 < m"
  then show ?thesis using True by (simp add: round_magnitude_small)
next
  case False
  then have "2 ^ 53 \<le> m" by simp
  from round_magnitude_bounds(1)[OF this] ulp_pos[of m]
  have "0 < 2 ^ 52 * ulp m" "2 ^ 52 * ulp m \<le> round_magnitude m" by simp_all
  then show ?thesis by linarith
qed

lemma ulp_eqI:
  assumes "2 ^ 52 * 2 ^ e \<le> z" "z < 2 ^ 53 * 2 ^ e"
  shows "ulp z = 2 ^ e"
proof -
  have "z = 2 ^ (52 + e) + (z - 2 ^ (52 + e))" by simp
  moreover have "0 \<le> z - 2 ^ (52 + e)" using assms(1) by (simp add: power_add)
  moreover have "z - 2 ^ (52 + e) < 2 ^ (52 + e)" using assms(2) by (simp add: power_add)
  ultimately have "bitlen z = int (52 + e) + 1"
    using bitlen_twopow_add_eq[of "z - 2 ^ (52 + e)" "52 + e"] by simp
  then show ?thesis by (simp add: ulp_def)
qed

lemma round_magnitude_idem: "round_magnitude (round_magnitude m) = round_magnitude m"
proof (cases "m < 2 ^ 53")
  case True
  then show ?thesis by (simp add: round_magnitude_small)
next
  case False
  then have m: "2 ^ 53 \<le> m" by simp
  let ?z = "round_magnitude m"
  let ?e = "nat (bitlen m - 53)"
  have u: "ulp m = 2 ^ ?e" by (simp add: ulp_def)
  note b = round_magnitude_bounds[OF m] and ub = ulp_bounds[OF m]
  have z53: "2 ^ 53 \<le> ?z"
  proof -
    have "(2::int) ^ 52 * 2 \<le> 2 ^ 52 * ulp m" using ub(3) by (intro mult_left_mono) simp_all
    then show ?thesis using b(1) by simp
  qed
  show ?thesis
  proof (cases "?z < 2 ^ 53 * ulp m")
    case True
    have "ulp ?z = 2 ^ ?e" using b(1) True unfolding u by (rule ulp_eqI)
    then have "ulp ?z dvd ?z" using b(3) u by simp
    with z53 show ?thesis by (rule round_magnitude_exact)
  next
    case False
    then have z: "?z = 2 ^ 53 * 2 ^ ?e" using b(2) u by simp
    have "ulp ?z = 2 ^ (Suc ?e)"
      by (rule ulp_eqI) (simp_all add: z)
    then have "ulp ?z dvd ?z" unfolding z by simp
    with z53 show ?thesis by (rule round_magnitude_exact)
  qed
qed




lemma round_magnitude_eval:
  assumes "2 ^ 52 * 2 ^ e \<le> m" "m < 2 ^ 53 * 2 ^ e" "1 \<le> e"
  shows "round_magnitude m =
     (if 2 * (m mod 2 ^ e) < 2 ^ e \<or> (2 * (m mod 2 ^ e) = 2 ^ e \<and> even (m div 2 ^ e))
      then (m div 2 ^ e) * 2 ^ e else (m div 2 ^ e + 1) * 2 ^ e)"
proof -
  have u: "ulp m = 2 ^ e" using assms(1,2) by (rule ulp_eqI)
  have "(2::int) ^ 1 \<le> 2 ^ e" using assms(3) by (intro power_increasing) simp_all
  then have "(2::int) ^ 52 * 2 \<le> 2 ^ 52 * 2 ^ e" by (intro mult_left_mono) simp_all
  then have "\<not> m < 2 ^ 53" using assms(1) by simp
  then show ?thesis
    unfolding round_magnitude_def Let_def ulp_def[symmetric] u by simp
qed

lemma round_magnitude_2_53: "round_magnitude (2 ^ 53) = 2 ^ 53"
proof -
  have "ulp (2 ^ 53) = 2 ^ 1" by (rule ulp_eqI) simp_all
  then have "ulp (2 ^ 53) dvd 2 ^ 53" by simp
  then show ?thesis by (intro round_magnitude_exact) simp_all
qed

lemma py_float_exact: "\<bar>x\<bar> \<le> 2 ^ 53 \<Longrightarrow> py_float x = x"
proof -
  assume a: "\<bar>x\<bar> \<le> 2 ^ 53"
  have "round_magnitude m = m" if "0 \<le> m" "m \<le> 2 ^ 53" for m
  proof (cases "m = 2 ^ 53")
    case True
    then show ?thesis by (simp only: round_magnitude_2_53)
  next
    case False
    then have "m < 2 ^ 53" using that by simp
    then show ?thesis by (rule round_magnitude_small)
  qed
  from this[of x] this[of "- x"] a show ?thesis by (auto simp: py_float_def)
qed

lemma py_float_nonneg_iff [simp]: "0 \<le> py_float x \<longleftrightarrow> 0 \<le> x"
  using round_magnitude_nonneg[of x] round_magnitude_pos[of "- x"]
  by (auto simp: py_float_def)

lemma py_float_neg_iff [simp]: "py_float x < 0 \<longleftrightarrow> x < 0"
  using py_float_nonneg_iff[of x] by linarith

lemma py_float_idem [simp]: "py_float (py_float x) = py_float x"
proof (cases "x < 0")
  case True
  then have "0 < round_magnitude (- x)" by (intro round_magnitude_pos) simp
  then show ?thesis using True by (simp add: py_float_def round_magnitude_idem)
next
  case False
  then have "0 \<le> round_magnitude x" by (intro round_magnitude_nonneg) simp
  then show ?thesis using False by (simp add: py_float_def round_magnitude_idem)
qed


lemma float_add_exact: "\<bar>x\<bar> \<le> 2 ^ 53 \<Longrightarrow> \<bar>a + x\<bar> \<le> 2 ^ 53 \<Longrightarrow> float_add a x = a + x"
  by (simp add: float_add_def py_float_exact)

lemma float_sub_exact: "\<bar>x\<bar> \<le> 2 ^ 53 \<Longrightarrow> \<bar>a - x\<bar> \<le> 2 ^ 53 \<Longrightarrow> float_sub a x = a - x"
  by (simp add: float_sub_def py_float_exact)

lemma py_float_eval:
  "py_float x = (if \<bar>x\<bar> \<le> 2 ^ 53 then x
                 else if x < 0 then - round_magnitude (- x) else round_magnitude x)"
  by (simp add: py_float_exact) (simp add: py_float_def)

lemma float_add_nonneg: "0 \<le> a \<Longrightarrow> 0 \<le> x \<Longrightarrow> 0 \<le> float_add a x"
  by (simp add: float_add_def)


lemma float_add_is_float [simp]: "py_float (float_add a x) = float_add a x"
  by (simp add: float_add_def)

lemma float_sub_is_float [simp]: "py_float (float_sub a x) = float_sub a x"
  by (simp add: float_sub_def)






section \<open>Basic facts about the helpers\<close>

lemmas eval_defs =
  create_limit_buy_order_def create_limit_sell_order_def create_market_buy_order_def
  create_market_sell_order_def try_buy_def try_sell_def get_orders_def ACTIVE_ORDER_STATUSES_def
  FINAL_ORDER_STATUSES_def priority_key_def buy_gate_def sell_gate_def buy_def sell_def
  partially_execute_order_def rewrite_order_def flush_order_def add_and_commit_def
  fits_columns_def int32_def float_add_def float_sub_def py_float_eval
  freeze_balance_def change_balance_def cancel_order_def qty_def Let_def



lemma pe_fields:
  assumes "partially_execute_order ord amt = Inr ord'"
  shows "oid ord' = oid ord" "trader_id ord' = trader_id ord" "symbol_ticker ord' = symbol_ticker ord"
    "price ord' = price ord" "direction ord' = direction ord" "created_at ord' = created_at ord"
    "amount ord' = amount ord - amt" "filled ord' = filled ord + amt"
    "status ord' = (if amount ord' = 0 then EXECUTED else PARTIALLY_EXECUTED)"
  using assms by (auto simp: partially_execute_order_def split: if_splits)

lemma buy_tables:
  assumes "buy s seller buyer tk pr amt = Inr s'"
  shows "orders s' = orders s"
    "\<exists>p. pr = Some p \<and> trades s' = trades s @ [\<lparr>trader_from_id = seller, trader_to_id = buyer,
        trade_ticker = tk, trade_amount = amt, trade_price = p\<rparr>]"
  using assms by (auto simp: buy_def Let_def split: option.splits if_splits)

lemma sell_tables:
  assumes "sell s seller buyer tk pr amt = Inr s'"
  shows "orders s' = orders s"
    "\<exists>p. pr = Some p \<and> trades s' = trades s @ [\<lparr>trader_from_id = seller, trader_to_id = buyer,
        trade_ticker = tk, trade_amount = amt, trade_price = p\<rparr>]"
  using assms by (auto simp: sell_def Let_def split: option.splits if_splits)

lemma freeze_tables:
  assumes "freeze_balance base s tid tk amt = Inr s'"
  shows "orders s' = orders s" "trades s' = trades s"
  using assms by (auto simp: freeze_balance_def split: option.splits if_splits)

lemma change_tables:
  assumes "change_balance base s tid tk amt = Inr s'"
  shows "orders s' = orders s" "trades s' = trades s"
  using assms by (auto simp: change_balance_def split: option.splits if_splits)

text \<open>One iteration of a matching loop that ends without an exception.\<close>

lemma match_buy_Cons_Inr:
  assumes "match_buy s trader tk pr n (m # ms) = Inr r"
  obtains (filled_up) "amount n = 0" "r = (s, n)"
  | (gate) "amount n \<noteq> 0" "buy_gate pr m = Inr True" "r = (s, n)"
  | (step) s1 m' n' where "amount n \<noteq> 0" "buy_gate pr m = Inr False"
      "buy s (trader_id m) trader tk (price m) (min (amount m) (amount n)) = Inr s1"
      "partially_execute_order m (min (amount m) (amount n)) = Inr m'"
      "partially_execute_order n (min (amount m) (amount n)) = Inr n'"
      "match_buy (rewrite_order s1 m') trader tk pr n' ms = Inr r"
      "fits_columns m'"
  using assms by (auto simp: Let_def flush_order_def split: if_splits sum.splits)

lemma match_sell_Cons_Inr:
  assumes "match_sell s trader tk pr n (m # ms) = Inr r"
  obtains (filled_up) "amount n = 0" "r = (s, n)"
  | (gate) "amount n \<noteq> 0" "sell_gate pr m = Inr True" "r = (s, n)"
  | (step) s1 m' n' where "amount n \<noteq> 0" "sell_gate pr m = Inr False"
      "sell s trader (trader_id m) tk (price m) (min (amount m) (amount n)) = Inr s1"
      "partially_execute_order m (min (amount m) (amount n)) = Inr m'"
      "partially_execute_order n (min (amount m) (amount n)) = Inr n'"
      "match_sell (rewrite_order s1 m') trader tk pr n' ms = Inr r"
      "fits_columns m'"
  using assms by (auto simp: Let_def flush_order_def split: if_splits sum.splits)


lemma pe_qty: "partially_execute_order ord amt = Inr ord' \<Longrightarrow> qty ord' = qty ord"
  by (auto simp: partially_execute_order_def qty_def split: if_splits)

lemma flush_keeps_ids: "map oid (orders (rewrite_order s m')) = map oid (orders s)"
  by (simp add: rewrite_order_def)

lemma flush_keeps_qty:
  assumes "distinct (map oid (orders s))" "m \<in> set (orders s)" "oid m' = oid m" "qty m' = qty m"
  shows "map (\<lambda>ord. (oid ord, qty ord)) (orders (rewrite_order s m'))
       = map (\<lambda>ord. (oid ord, qty ord)) (orders s)"
proof -
  have inj: "inj_on oid (set (orders s))"
    using assms(1) by (simp add: distinct_map)
  have "\<And>x. x \<in> set (orders s) \<Longrightarrow> oid x = oid m' \<Longrightarrow> x = m"
    using inj assms(2,3) by (auto dest: inj_onD)
  then show ?thesis
    using assms(3,4) by (auto simp: rewrite_order_def)
qed

lemma flush_keeps_others:
  assumes "x \<in> set (orders s)" "oid x \<noteq> oid m'"
  shows "x \<in> set (orders (rewrite_order s m'))"
  using assms by (force simp: rewrite_order_def)

lemma match_buy_qty:
  assumes "match_buy s trader tk pr n cs = Inr (s', n')"
    and "distinct (map oid (orders s))" "set cs \<subseteq> set (orders s)" "distinct (map oid cs)"
  shows "qty n' = qty n \<and> map (\<lambda>ord. (oid ord, qty ord)) (orders s')
                              = map (\<lambda>ord. (oid ord, qty ord)) (orders s)"
  using assms
proof (induction cs arbitrary: s n)
  case Nil
  then show ?case by simp
next
  case (Cons m ms)
  from Cons.prems(1) show ?case
  proof (cases rule: match_buy_Cons_Inr)
    case (step s1 m1 n1)
    let ?s2 = "rewrite_order s1 m1"
    have o1: "orders s1 = orders s" using step(3) by (rule buy_tables)
    have m_in: "m \<in> set (orders s1)" using Cons.prems(3) o1 by simp
    have d1: "distinct (map oid (orders s1))" using Cons.prems(2) o1 by simp
    have id1: "oid m1 = oid m" using step(4) by (rule pe_fields)
    have keep: "map (\<lambda>ord. (oid ord, qty ord)) (orders ?s2) = map (\<lambda>ord. (oid ord, qty ord)) (orders s)"
      using flush_keeps_qty[OF d1 m_in id1 pe_qty[OF step(4)]] o1 by simp
    have d2: "distinct (map oid (orders ?s2))" using d1 by (simp add: flush_keeps_ids)
    have sub: "set ms \<subseteq> set (orders ?s2)"
    proof
      fix x assume x: "x \<in> set ms"
      then have "x \<in> set (orders s1)" using Cons.prems(3) o1 by auto
      moreover have "oid x \<noteq> oid m" using x Cons.prems(4) by (auto simp: image_iff)
      then have "oid x \<noteq> oid m1" using id1 by simp
      ultimately show "x \<in> set (orders ?s2)" by (rule flush_keeps_others)
    qed
    have "qty n' = qty n1 \<and> map (\<lambda>ord. (oid ord, qty ord)) (orders s')
            = map (\<lambda>ord. (oid ord, qty ord)) (orders ?s2)"
      using Cons.IH[OF step(6) d2 sub] Cons.prems(4) by simp
    then show ?thesis using keep pe_qty[OF step(5)] by simp
  qed simp_all
qed

lemma match_sell_qty:
  assumes "match_sell s trader tk pr n cs = Inr (s', n')"
    and "distinct (map oid (orders s))" "set cs \<subseteq> set (orders s)" "distinct (map oid cs)"
  shows "qty n' = qty n \<and> map (\<lambda>ord. (oid ord, qty ord)) (orders s')
                              = map (\<lambda>ord. (oid ord, qty ord)) (orders s)"
  using assms
proof (induction cs arbitrary: s n)
  case Nil
  then show ?case by simp
next
  case (Cons m ms)
  from Cons.prems(1) show ?case
  proof (cases rule: match_sell_Cons_Inr)
    case (step s1 m1 n1)
    let ?s2 = "rewrite_order s1 m1"
    have o1: "orders s1 = orders s" using step(3) by (rule sell_tables)
    have m_in: "m \<in> set (orders s1)" using Cons.prems(3) o1 by simp
    have d1: "distinct (map oid (orders s1))" using Cons.prems(2) o1 by simp
    have id1: "oid m1 = oid m" using step(4) by (rule pe_fields)
    have keep: "map (\<lambda>ord. (oid ord, qty ord)) (orders ?s2) = map (\<lambda>ord. (oid ord, qty ord)) (orders s)"
      using flush_keeps_qty[OF d1 m_in id1 pe_qty[OF step(4)]] o1 by simp
    have d2: "distinct (map oid (orders ?s2))" using d1 by (simp add: flush_keeps_ids)
    have sub: "set ms \<subseteq> set (orders ?s2)"
    proof
      fix x assume x: "x \<in> set ms"
      then have "x \<in> set (orders s1)" using Cons.prems(3) o1 by auto
      moreover have "oid x \<noteq> oid m" using x Cons.prems(4) by (auto simp: image_iff)
      then have "oid x \<noteq> oid m1" using id1 by simp
      ultimately show "x \<in> set (orders ?s2)" by (rule flush_keeps_others)
    qed
    have "qty n' = qty n1 \<and> map (\<lambda>ord. (oid ord, qty ord)) (orders s')
            = map (\<lambda>ord. (oid ord, qty ord)) (orders ?s2)"
      using Cons.IH[OF step(6) d2 sub] Cons.prems(4) by simp
    then show ?thesis using keep pe_qty[OF step(5)] by simp
  qed simp_all
qed

lemma get_orders_subset: "set (get_orders s tk d limit) \<subseteq> set (orders s)"
  by (auto simp: get_orders_def dest: in_set_takeD)

lemma get_orders_distinct_ids:
  assumes "distinct (map oid (orders s))"
  shows "distinct (map oid (get_orders s tk d limit))"
proof -
  have "distinct (orders s)" "inj_on oid (set (orders s))"
    using assms by (simp_all add: distinct_map)
  then have "distinct (get_orders s tk d limit)"
    by (simp add: get_orders_def)
  moreover have "inj_on oid (set (get_orders s tk d limit))"
    using \<open>inj_on oid (set (orders s))\<close> get_orders_subset by (rule inj_on_subset)
  ultimately show ?thesis by (simp add: distinct_map)
qed



lemma match_buy_new_order_aux:
  assumes "match_buy s trader tk pr n cs = Inr (s', n')"
  shows "oid n' = oid n \<and> trader_id n' = trader_id n \<and> symbol_ticker n' = symbol_ticker n
    \<and> price n' = price n \<and> direction n' = direction n \<and> created_at n' = created_at n
    \<and> ((s' = s \<and> n' = n) \<or> status n' = (if amount n' = 0 then EXECUTED else PARTIALLY_EXECUTED))"
  using assms
proof (induction cs arbitrary: s n)
  case Nil
  then show ?case by simp
next
  case (Cons m ms)
  from Cons.prems show ?case
  proof (cases rule: match_buy_Cons_Inr)
    case (step s1 m1 n1)
    note ih = Cons.IH[OF step(6)] and f = pe_fields[OF step(5)]
    from ih f(9) have "status n' = (if amount n' = 0 then EXECUTED else PARTIALLY_EXECUTED)"
      by auto
    with ih f show ?thesis by simp
  qed simp_all
qed

lemmas match_buy_new_order =
  match_buy_new_order_aux[THEN conjunct1]
  match_buy_new_order_aux[THEN conjunct2, THEN conjunct1]
  match_buy_new_order_aux[THEN conjunct2, THEN conjunct2, THEN conjunct1]
  match_buy_new_order_aux[THEN conjunct2, THEN conjunct2, THEN conjunct2, THEN conjunct1]
  match_buy_new_order_aux[THEN conjunct2, THEN conjunct2, THEN conjunct2, THEN conjunct2, THEN conjunct1]
  match_buy_new_order_aux[THEN conjunct2, THEN conjunct2, THEN conjunct2, THEN conjunct2, THEN conjunct2, THEN conjunct1]
  match_buy_new_order_aux[THEN conjunct2, THEN conjunct2, THEN conjunct2, THEN conjunct2, THEN conjunct2, THEN conjunct2]

text \<open>What a submission that returns has done: the body committed, or the handler ran.\<close>

lemma try_buy_Inr:
  assumes "try_buy base s trader tk pr n cs = Inr (s2, n2)"
  shows "\<exists>s1. match_buy s trader tk pr n cs = Inr (s1, n2)
     \<and> (if status n2 = EXECUTED then s2 = s1
         else pr \<noteq> None
           \<and> (\<exists>p. price n2 = Some p \<and> freeze_balance base s1 trader base (amount n2 * p) = Inr s2))"
  using assms by (auto simp: try_buy_def split: sum.splits if_splits option.splits)

lemma try_buy_not_cancelled:
  assumes "try_buy base s trader tk pr n cs = Inr (s2, n2)" "status n \<noteq> CANCELLED"
  shows "status n2 \<noteq> CANCELLED"
proof -
  from try_buy_Inr[OF assms(1)] obtain s1 where "match_buy s trader tk pr n cs = Inr (s1, n2)"
    by blast
  from match_buy_new_order(7)[OF this] assms(2) show ?thesis by (auto split: if_splits)
qed

lemma create_limit_buy_order_Inr:
  assumes "create_limit_buy_order base s tk quantity pr trader new_id now = Inr (s', n)"
  obtains (committed) s2 where
      "try_buy base s trader tk pr
         \<lparr>oid = new_id, trader_id = trader, symbol_ticker = tk, amount = quantity,
          filled = 0, price = pr, direction = BID, status = NEW, created_at = now\<rparr>
         (get_orders s tk ASK (nat quantity)) = Inr (s2, n)"
      "s' = s2\<lparr>orders := orders s2 @ [n]\<rparr>" "fits_columns n" "status n \<noteq> CANCELLED"
  | (handled)
      "n = \<lparr>oid = new_id, trader_id = trader, symbol_ticker = tk, amount = quantity,
            filled = 0, price = pr, direction = BID, status = CANCELLED, created_at = now\<rparr>"
      "s' = s\<lparr>orders := orders s @ [n]\<rparr>" "fits_columns n"
proof (cases "try_buy base s trader tk pr
         \<lparr>oid = new_id, trader_id = trader, symbol_ticker = tk, amount = quantity,
          filled = 0, price = pr, direction = BID, status = NEW, created_at = now\<rparr>
         (get_orders s tk ASK (nat quantity))")
  case (Inl e)
  then show ?thesis using assms handled
    by (auto simp: create_limit_buy_order_def Let_def add_and_commit_def split: if_splits)
next
  case (Inr r)
  obtain s2 n2 where r: "r = (s2, n2)" by (cases r)
  have nc: "status n2 \<noteq> CANCELLED"
    using try_buy_not_cancelled[OF Inr[unfolded r]] by simp
  show ?thesis
  proof (cases "fits_columns n2")
    case True
    then have "s' = s2\<lparr>orders := orders s2 @ [n2]\<rparr>" "n = n2"
      using assms Inr r by (auto simp: create_limit_buy_order_def Let_def add_and_commit_def)
    then show ?thesis using committed[of s2] Inr r True nc by simp
  next
    case False
    then show ?thesis using assms Inr r handled
      by (auto simp: create_limit_buy_order_def Let_def add_and_commit_def split: if_splits)
  qed
qed

lemma create_buy_qty:
  assumes "distinct (map oid (orders s))"
    and "create_limit_buy_order base s tk quantity pr trader new_id now = Inr (s', n)"
  shows "qty n = quantity \<and> map (\<lambda>ord. (oid ord, qty ord)) (orders s')
           = map (\<lambda>ord. (oid ord, qty ord)) (orders s) @ [(new_id, quantity)]"
  using assms(2)
proof (cases rule: create_limit_buy_order_Inr)
  case handled
  then show ?thesis by (simp add: qty_def)
next
  case (committed s2)
  let ?new = "\<lparr>oid = new_id, trader_id = trader, symbol_ticker = tk,
                       amount = quantity, filled = 0, price = pr, direction = BID,
                       status = NEW, created_at = now\<rparr>"
  from committed(1) obtain s1 where m: "match_buy s trader tk pr ?new (get_orders s tk ASK (nat quantity)) = Inr (s1, n)"
    and o: "orders s2 = orders s1"
    by (auto simp: try_buy_def freeze_tables split: sum.splits if_splits option.splits)
  have "qty n = qty ?new \<and> map (\<lambda>ord. (oid ord, qty ord)) (orders s1)
                              = map (\<lambda>ord. (oid ord, qty ord)) (orders s)"
    using m assms(1) get_orders_subset get_orders_distinct_ids[OF assms(1)]
    by (rule match_buy_qty)
  moreover have "oid n = new_id" using match_buy_new_order(1)[OF m] by simp
  ultimately show ?thesis using o committed(2) by (simp add: qty_def)
qed

lemma match_sell_new_order_aux:
  assumes "match_sell s trader tk pr n cs = Inr (s', n')"
  shows "oid n' = oid n \<and> trader_id n' = trader_id n \<and> symbol_ticker n' = symbol_ticker n
    \<and> price n' = price n \<and> direction n' = direction n \<and> created_at n' = created_at n
    \<and> ((s' = s \<and> n' = n) \<or> status n' = (if amount n' = 0 then EXECUTED else PARTIALLY_EXECUTED))"
  using assms
proof (induction cs arbitrary: s n)
  case Nil
  then show ?case by simp
next
  case (Cons m ms)
  from Cons.prems show ?case
  proof (cases rule: match_sell_Cons_Inr)
    case (step s1 m1 n1)
    note ih = Cons.IH[OF step(6)] and f = pe_fields[OF step(5)]
    from ih f(9) have "status n' = (if amount n' = 0 then EXECUTED else PARTIALLY_EXECUTED)"
      by auto
    with ih f show ?thesis by simp
  qed simp_all
qed

lemmas match_sell_new_order =
  match_sell_new_order_aux[THEN conjunct1]
  match_sell_new_order_aux[THEN conjunct2, THEN conjunct1]
  match_sell_new_order_aux[THEN conjunct2, THEN conjunct2, THEN conjunct1]
  match_sell_new_order_aux[THEN conjunct2, THEN conjunct2, THEN conjunct2, THEN conjunct1]
  match_sell_new_order_aux[THEN conjunct2, THEN conjunct2, THEN conjunct2, THEN conjunct2, THEN conjunct1]
  match_sell_new_order_aux[THEN conjunct2, THEN conjunct2, THEN conjunct2, THEN conjunct2, THEN conjunct2, THEN conjunct1]
  match_sell_new_order_aux[THEN conjunct2, THEN conjunct2, THEN conjunct2, THEN conjunct2, THEN conjunct2, THEN conjunct2]

lemma try_sell_Inr:
  assumes "try_sell base s trader tk pr n cs = Inr (s2, n2)"
  shows "\<exists>s1. match_sell s trader tk pr n cs = Inr (s1, n2)
     \<and> (if status n2 = EXECUTED then s2 = s1
         else pr \<noteq> None
           \<and> freeze_balance base s1 trader tk (amount n2) = Inr s2)"
  using assms by (auto simp: try_sell_def split: sum.splits if_splits option.splits)

lemma try_sell_not_cancelled:
  assumes "try_sell base s trader tk pr n cs = Inr (s2, n2)" "status n \<noteq> CANCELLED"
  shows "status n2 \<noteq> CANCELLED"
proof -
  from try_sell_Inr[OF assms(1)] obtain s1 where "match_sell s trader tk pr n cs = Inr (s1, n2)"
    by blast
  from match_sell_new_order(7)[OF this] assms(2) show ?thesis by (auto split: if_splits)
qed

lemma create_limit_sell_order_Inr:
  assumes "create_limit_sell_order base s tk quantity pr trader new_id now = Inr (s', n)"
  obtains (committed) s2 where
      "try_sell base s trader tk pr
         \<lparr>oid = new_id, trader_id = trader, symbol_ticker = tk, amount = quantity,
          filled = 0, price = pr, direction = ASK, status = NEW, created_at = now\<rparr>
         (get_orders s tk BID (nat quantity)) = Inr (s2, n)"
      "s' = s2\<lparr>orders := orders s2 @ [n]\<rparr>" "fits_columns n" "status n \<noteq> CANCELLED"
  | (handled)
      "n = \<lparr>oid = new_id, trader_id = trader, symbol_ticker = tk, amount = quantity,
            filled = 0, price = pr, direction = ASK, status = CANCELLED, created_at = now\<rparr>"
      "s' = s\<lparr>orders := orders s @ [n]\<rparr>" "fits_columns n"
proof (cases "try_sell base s trader tk pr
         \<lparr>oid = new_id, trader_id = trader, symbol_ticker = tk, amount = quantity,
          filled = 0, price = pr, direction = ASK, status = NEW, created_at = now\<rparr>
         (get_orders s tk BID (nat quantity))")
  case (Inl e)
  then show ?thesis using assms handled
    by (auto simp: create_limit_sell_order_def Let_def add_and_commit_def split: if_splits)
next
  case (Inr r)
  obtain s2 n2 where r: "r = (s2, n2)" by (cases r)
  have nc: "status n2 \<noteq> CANCELLED"
    using try_sell_not_cancelled[OF Inr[unfolded r]] by simp
  show ?thesis
  proof (cases "fits_columns n2")
    case True
    then have "s' = s2\<lparr>orders := orders s2 @ [n2]\<rparr>" "n = n2"
      using assms Inr r by (auto simp: create_limit_sell_order_def Let_def add_and_commit_def)
    then show ?thesis using committed[of s2] Inr r True nc by simp
  next
    case False
    then show ?thesis using assms Inr r handled
      by (auto simp: create_limit_sell_order_def Let_def add_and_commit_def split: if_splits)
  qed
qed

lemma create_sell_qty:
  assumes "distinct (map oid (orders s))"
    and "create_limit_sell_order base s tk quantity pr trader new_id now = Inr (s', n)"
  shows "qty n = quantity \<and> map (\<lambda>ord. (oid ord, qty ord)) (orders s')
           = map (\<lambda>ord. (oid ord, qty ord)) (orders s) @ [(new_id, quantity)]"
  using assms(2)
proof (cases rule: create_limit_sell_order_Inr)
  case handled
  then show ?thesis by (simp add: qty_def)
next
  case (committed s2)
  let ?new = "\<lparr>oid = new_id, trader_id = trader, symbol_ticker = tk,
                       amount = quantity, filled = 0, price = pr, direction = ASK,
                       status = NEW, created_at = now\<rparr>"
  from committed(1) obtain s1 where m: "match_sell s trader tk pr ?new (get_orders s tk BID (nat quantity)) = Inr (s1, n)"
    and o: "orders s2 = orders s1"
    by (auto simp: try_sell_def freeze_tables split: sum.splits if_splits option.splits)
  have "qty n = qty ?new \<and> map (\<lambda>ord. (oid ord, qty ord)) (orders s1)
                              = map (\<lambda>ord. (oid ord, qty ord)) (orders s)"
    using m assms(1) get_orders_subset get_orders_distinct_ids[OF assms(1)]
    by (rule match_sell_qty)
  moreover have "oid n = new_id" using match_sell_new_order(1)[OF m] by simp
  ultimately show ?thesis using o committed(2) by (simp add: qty_def)
qed

lemma cancel_order_Inr:
  assumes "cancel_order base s order_id tid = Inr (s', res)"
    and "find (\<lambda>ord. oid ord = order_id \<and> trader_id ord = tid) (orders s) = Some ord"
  shows "status ord \<notin> FINAL_ORDER_STATUSES \<and>
    (\<exists>p s1. price ord = Some p
       \<and> change_balance base s (trader_id ord)
             (if direction ord = ASK then symbol_ticker ord else base)
             (if direction ord = ASK then amount ord else amount ord * p) = Inr s1
       \<and> s' = rewrite_order s1 (ord\<lparr>status := CANCELLED\<rparr>)
       \<and> res = Some (ord\<lparr>status := CANCELLED\<rparr>))"
  using assms
  by (cases "direction ord")
     (auto simp: cancel_order_def split: if_splits option.splits sum.splits)

lemma cancel_keeps_qty:
  assumes "distinct (map oid (orders s))" "cancel_order base s order_id tid = Inr (s', res)"
  shows "map (\<lambda>ord. (oid ord, qty ord)) (orders s') = map (\<lambda>ord. (oid ord, qty ord)) (orders s)"
proof (cases "find (\<lambda>ord. oid ord = order_id \<and> trader_id ord = tid) (orders s)")
  case None
  then show ?thesis using assms(2) by (simp add: cancel_order_def)
next
  case (Some ord)
  then have in_s: "ord \<in> set (orders s)"
    by (auto simp: find_Some_iff)
  from cancel_order_Inr[OF assms(2) Some] obtain s1 where
    s1: "orders s1 = orders s" and s': "s' = rewrite_order s1 (ord\<lparr>status := CANCELLED\<rparr>)"
    by (auto dest: change_tables(1))
  show ?thesis
    unfolding s' using flush_keeps_qty[of s1 ord "ord\<lparr>status := CANCELLED\<rparr>"] assms(1) in_s s1
    by (simp add: qty_def)
qed

section \<open>C5: amount plus filled is the requested quantity\<close>

text \<open>
  Claim C5. For every order, \<open>amount + filled\<close> equals the quantity requested at
  submission: a partial execution keeps the sum; a submission that returns (buy or sell,
  committed or rolled back to a cancelled record) returns an order whose sum is the
  requested quantity and leaves the sum of every stored order as it was; a cancellation
  leaves every sum as it was. A submission that raises creates no order and leaves the store
  as it was. Order ids are a primary key.
\<close>

theorem amount_plus_filled_is_requested_quantity:
  assumes "distinct (map oid (orders s))"
  shows "(partially_execute_order ord amt = Inr ord' \<longrightarrow> qty ord' = qty ord)
    \<and> (\<forall>r. Inr r \<in> {create_limit_buy_order base s tk quantity pr trader new_id now,
                     create_limit_sell_order base s tk quantity pr trader new_id now} \<longrightarrow>
          qty (snd r) = quantity
          \<and> map (\<lambda>ord. (oid ord, qty ord)) (orders (fst r))
              = map (\<lambda>ord. (oid ord, qty ord)) (orders s) @ [(new_id, quantity)])
    \<and> (cancel_order base s order_id tid = Inr (s', res) \<longrightarrow>
          map (\<lambda>ord. (oid ord, qty ord)) (orders s') = map (\<lambda>ord. (oid ord, qty ord)) (orders s))"
proof (intro conjI allI impI)
  show "qty ord' = qty ord" if "partially_execute_order ord amt = Inr ord'"
    using that by (rule pe_qty)
  show "map (\<lambda>ord. (oid ord, qty ord)) (orders s') = map (\<lambda>ord. (oid ord, qty ord)) (orders s)"
    if "cancel_order base s order_id tid = Inr (s', res)"
    using assms that by (rule cancel_keeps_qty)
  fix r
  assume "Inr r \<in> {create_limit_buy_order base s tk quantity pr trader new_id now,
                     create_limit_sell_order base s tk quantity pr trader new_id now}"
  then have "create_limit_buy_order base s tk quantity pr trader new_id now = Inr (fst r, snd r)
      \<or> create_limit_sell_order base s tk quantity pr trader new_id now = Inr (fst r, snd r)"
    by auto
  then have both: "qty (snd r) = quantity
          \<and> map (\<lambda>ord. (oid ord, qty ord)) (orders (fst r))
              = map (\<lambda>ord. (oid ord, qty ord)) (orders s) @ [(new_id, quantity)]"
    using create_buy_qty[OF assms] create_sell_qty[OF assms] by blast
  from both show "qty (snd r) = quantity" ..
  from both show "map (\<lambda>ord. (oid ord, qty ord)) (orders (fst r))
              = map (\<lambda>ord. (oid ord, qty ord)) (orders s) @ [(new_id, quantity)]" ..
qed

theorem amount_plus_filled_is_requested_quantity_witness:
  "distinct (map oid (orders two_asks))
   \<and> (\<exists>ord'. partially_execute_order (hd (orders two_asks)) 3 = Inr ord' \<and> qty ord' = 3)
   \<and> (\<exists>r. create_limit_buy_order ''RUB'' two_asks ''BBB'' 5 (Some 10) 3 12 3 = Inr r
         \<and> status (snd r) = PARTIALLY_EXECUTED \<and> qty (snd r) = 5
         \<and> map (\<lambda>ord. (oid ord, qty ord)) (orders (fst r)) = [(10, 3), (11, 4), (12, 5)])
   \<and> (\<exists>r. create_limit_sell_order ''RUB'' two_asks ''BBB'' 5 (Some 10) 3 12 3 = Inr r
         \<and> status (snd r) = CANCELLED \<and> qty (snd r) = 5
         \<and> map (\<lambda>ord. (oid ord, qty ord)) (orders (fst r)) = [(10, 3), (11, 4), (12, 5)])
   \<and> (\<exists>s' res. cancel_order ''RUB'' two_asks 11 2 = Inr (s', res)
         \<and> map (\<lambda>ord. (oid ord, qty ord)) (orders s') = [(10, 3), (11, 4)])"
proof -
  have d: "distinct (map oid (orders two_asks))" by (simp add: two_asks_def)
  note t = amount_plus_filled_is_requested_quantity[OF d, where base = "''RUB''"
      and tk = "''BBB''" and quantity = 5 and pr = "Some 10" and trader = 3 and new_id = 12
      and now = 3]
  note t2 = t[THEN conjunct2, THEN conjunct1, rule_format]
  have m0: "map (\<lambda>ord. (oid ord, qty ord)) (orders two_asks) = [(10, 3), (11, 4)]"
    by (simp add: two_asks_def qty_def)
  obtain o1 where p: "partially_execute_order (hd (orders two_asks)) 3 = Inr o1"
    by (simp add: two_asks_def eval_defs)
  then have p': "qty o1 = 3"
    using t[where ord = "hd (orders two_asks)" and amt = 3 and ord' = o1]
    by (simp add: two_asks_def qty_def)
  obtain rb where b: "create_limit_buy_order ''RUB'' two_asks ''BBB'' 5 (Some 10) 3 12 3 = Inr rb"
    by (simp add: two_asks_def eval_defs)
  then have b1: "status (snd rb) = PARTIALLY_EXECUTED"
    by (auto simp: two_asks_def eval_defs)
  have b2: "qty (snd rb) = 5
      \<and> map (\<lambda>ord. (oid ord, qty ord)) (orders (fst rb)) = [(10, 3), (11, 4), (12, 5)]"
    using t2[of rb] b m0 by simp
  obtain rs where a: "create_limit_sell_order ''RUB'' two_asks ''BBB'' 5 (Some 10) 3 12 3 = Inr rs"
    by (simp add: two_asks_def eval_defs)
  then have a1: "status (snd rs) = CANCELLED"
    by (auto simp: two_asks_def eval_defs)
  have a2: "qty (snd rs) = 5
      \<and> map (\<lambda>ord. (oid ord, qty ord)) (orders (fst rs)) = [(10, 3), (11, 4), (12, 5)]"
    using t2[of rs] a m0 by simp
  obtain s1 res where c: "cancel_order ''RUB'' two_asks 11 2 = Inr (s1, res)"
    by (simp add: two_asks_def eval_defs)
  then have c1: "map (\<lambda>ord. (oid ord, qty ord)) (orders s1) = [(10, 3), (11, 4)]"
    using t[where order_id = 11 and tid = 2 and s' = s1 and res = res] m0
    by simp
  have P: "\<exists>ord'. partially_execute_order (hd (orders two_asks)) 3 = Inr ord' \<and> qty ord' = 3"
    by (rule exI[of _ o1]) (simp add: p p')
  have B: "\<exists>r. create_limit_buy_order ''RUB'' two_asks ''BBB'' 5 (Some 10) 3 12 3 = Inr r
         \<and> status (snd r) = PARTIALLY_EXECUTED \<and> qty (snd r) = 5
         \<and> map (\<lambda>ord. (oid ord, qty ord)) (orders (fst r)) = [(10, 3), (11, 4), (12, 5)]"
    by (rule exI[of _ rb]) (simp add: b b1 b2)
  have A: "\<exists>r. create_limit_sell_order ''RUB'' two_asks ''BBB'' 5 (Some 10) 3 12 3 = Inr r
         \<and> status (snd r) = CANCELLED \<and> qty (snd r) = 5
         \<and> map (\<lambda>ord. (oid ord, qty ord)) (orders (fst r)) = [(10, 3), (11, 4), (12, 5)]"
    by (rule exI[of _ rs]) (simp add: a a1 a2)
  have C: "\<exists>s' res. cancel_order ''RUB'' two_asks 11 2 = Inr (s', res)
         \<and> map (\<lambda>ord. (oid ord, qty ord)) (orders s') = [(10, 3), (11, 4)]"
    by (rule exI[of _ s1], rule exI[of _ res]) (simp add: c c1)
  show ?thesis by (intro conjI d P B A C)
qed

section \<open>C3: a failed submission is rolled back\<close>

lemma create_buy_returns:
  assumes "int32 quantity" "\<forall>p. pr = Some p \<longrightarrow> int32 p"
  shows "\<exists>r. create_limit_buy_order base s tk quantity pr trader new_id now = Inr r"
proof -
  have c: "fits_columns \<lparr>oid = new_id, trader_id = trader, symbol_ticker = tk, amount = quantity,
            filled = 0, price = pr, direction = BID, status = CANCELLED, created_at = now\<rparr>"
    using assms by (auto simp: fits_columns_def int32_def split: option.splits)
  then show ?thesis
    by (auto simp: create_limit_buy_order_def Let_def add_and_commit_def split: sum.splits)
qed

lemma create_buy_rollback:
  assumes "create_limit_buy_order base s tk quantity pr trader new_id now = Inr r" "status (snd r) = CANCELLED"
  shows "r = (s\<lparr>orders := orders s @ [\<lparr>oid = new_id, trader_id = trader, symbol_ticker = tk,
          amount = quantity, filled = 0, price = pr, direction = BID, status = CANCELLED,
          created_at = now\<rparr>]\<rparr>,
     \<lparr>oid = new_id, trader_id = trader, symbol_ticker = tk,
          amount = quantity, filled = 0, price = pr, direction = BID, status = CANCELLED,
          created_at = now\<rparr>)"
proof -
  obtain s' n where r: "r = (s', n)" by (cases r)
  from assms(1)[unfolded r] show ?thesis
  proof (cases rule: create_limit_buy_order_Inr)
    case (committed s2)
    then show ?thesis using assms(2) r by simp
  next
    case handled
    then show ?thesis using r by simp
  qed
qed


lemma create_sell_returns:
  assumes "int32 quantity" "\<forall>p. pr = Some p \<longrightarrow> int32 p"
  shows "\<exists>r. create_limit_sell_order base s tk quantity pr trader new_id now = Inr r"
proof -
  have c: "fits_columns \<lparr>oid = new_id, trader_id = trader, symbol_ticker = tk, amount = quantity,
            filled = 0, price = pr, direction = ASK, status = CANCELLED, created_at = now\<rparr>"
    using assms by (auto simp: fits_columns_def int32_def split: option.splits)
  then show ?thesis
    by (auto simp: create_limit_sell_order_def Let_def add_and_commit_def split: sum.splits)
qed

lemma create_sell_rollback:
  assumes "create_limit_sell_order base s tk quantity pr trader new_id now = Inr r" "status (snd r) = CANCELLED"
  shows "r = (s\<lparr>orders := orders s @ [\<lparr>oid = new_id, trader_id = trader, symbol_ticker = tk,
          amount = quantity, filled = 0, price = pr, direction = ASK, status = CANCELLED,
          created_at = now\<rparr>]\<rparr>,
     \<lparr>oid = new_id, trader_id = trader, symbol_ticker = tk,
          amount = quantity, filled = 0, price = pr, direction = ASK, status = CANCELLED,
          created_at = now\<rparr>)"
proof -
  obtain s' n where r: "r = (s', n)" by (cases r)
  from assms(1)[unfolded r] show ?thesis
  proof (cases rule: create_limit_sell_order_Inr)
    case (committed s2)
    then show ?thesis using assms(2) r by simp
  next
    case handled
    then show ?thesis using r by simp
  qed
qed





section \<open>C4: market orders that the book cannot fill\<close>

lemma match_buy_amount_lower:
  assumes "match_buy s trader tk pr n cs = Inr (s', n')" "\<forall>m \<in> set cs. 0 \<le> amount m"
  shows "amount n - sum_list (map amount cs) \<le> amount n'"
  using assms
proof (induction cs arbitrary: s n)
  case Nil
  then show ?case by simp
next
  case (Cons m ms)
  have nonneg: "0 \<le> sum_list (map amount ms)" "0 \<le> amount m"
    using Cons.prems(2) by (auto intro!: sum_list_nonneg)
  from Cons.prems(1) show ?case
  proof (cases rule: match_buy_Cons_Inr)
    case (step s1 m1 n1)
    have "amount n1 - sum_list (map amount ms) \<le> amount n'"
      using Cons.IH[OF step(6)] Cons.prems(2) by simp
    moreover have "amount n1 = amount n - min (amount m) (amount n)"
      using step(5) by (rule pe_fields)
    ultimately show ?thesis by simp
  qed (use nonneg in simp_all)
qed

lemma match_buy_new_qty:
  assumes "match_buy s trader tk pr n cs = Inr (s', n')"
  shows "qty n' = qty n"
  using assms
proof (induction cs arbitrary: s n)
  case Nil
  then show ?case by simp
next
  case (Cons m ms)
  from Cons.prems(1) show ?case
  proof (cases rule: match_buy_Cons_Inr)
    case (step s1 m1 n1)
    then show ?thesis using Cons.IH[OF step(6)] pe_qty[OF step(5)] by simp
  qed simp_all
qed

lemma market_buy_committed:
  assumes "create_market_buy_order base s tk quantity trader new_id now = Inr r" "status (snd r) \<noteq> CANCELLED"
  shows "status (snd r) = EXECUTED \<and> amount (snd r) = 0 \<and> filled (snd r) = quantity"
proof -
  obtain s' n where r: "r = (s', n)" by (cases r)
  from assms(1)[unfolded r create_market_buy_order_def] show ?thesis
  proof (cases rule: create_limit_buy_order_Inr)
    case handled
    then show ?thesis using assms(2) r by simp
  next
    case (committed s2)
    from try_buy_Inr[OF committed(1)] obtain s1 where
      m: "match_buy s trader tk None
              \<lparr>oid = new_id, trader_id = trader, symbol_ticker = tk, amount = quantity,
               filled = 0, price = None, direction = BID, status = NEW, created_at = now\<rparr>
              (get_orders s tk ASK (nat quantity)) = Inr (s1, n)"
      and f: "status n = EXECUTED"
      by (auto split: if_splits)
    from match_buy_new_order(7)[OF m] f have "amount n = 0"
      by (auto split: if_splits)
    moreover from match_buy_new_qty[OF m] have "amount n + filled n = quantity"
      by (simp add: qty_def)
    ultimately show ?thesis using f r by simp
  qed
qed

lemma create_buy_underfilled:
  assumes "\<forall>m \<in> set (get_orders s tk ASK (nat quantity)). 0 \<le> amount m"
    and "sum_list (map amount (get_orders s tk ASK (nat quantity))) < quantity"
    and "create_limit_buy_order base s tk quantity pr trader new_id now = Inr r"
  shows "status (snd r) \<noteq> EXECUTED"
proof -
  obtain s' n where r: "r = (s', n)" by (cases r)
  from assms(3)[unfolded r] show ?thesis
  proof (cases rule: create_limit_buy_order_Inr)
    case handled
    then show ?thesis using r by simp
  next
    case (committed s2)
    from try_buy_Inr[OF committed(1)] obtain s1 where
      m: "match_buy s trader tk pr
              \<lparr>oid = new_id, trader_id = trader, symbol_ticker = tk, amount = quantity,
               filled = 0, price = pr, direction = BID, status = NEW, created_at = now\<rparr>
              (get_orders s tk ASK (nat quantity)) = Inr (s1, n)"
      by blast
    have "0 < amount n"
      using match_buy_amount_lower[OF m assms(1)] assms(2) by simp
    with match_buy_new_order(7)[OF m] have "status n \<noteq> EXECUTED" by auto
    then show ?thesis using r by simp
  qed
qed

lemma match_sell_amount_lower:
  assumes "match_sell s trader tk pr n cs = Inr (s', n')" "\<forall>m \<in> set cs. 0 \<le> amount m"
  shows "amount n - sum_list (map amount cs) \<le> amount n'"
  using assms
proof (induction cs arbitrary: s n)
  case Nil
  then show ?case by simp
next
  case (Cons m ms)
  have nonneg: "0 \<le> sum_list (map amount ms)" "0 \<le> amount m"
    using Cons.prems(2) by (auto intro!: sum_list_nonneg)
  from Cons.prems(1) show ?case
  proof (cases rule: match_sell_Cons_Inr)
    case (step s1 m1 n1)
    have "amount n1 - sum_list (map amount ms) \<le> amount n'"
      using Cons.IH[OF step(6)] Cons.prems(2) by simp
    moreover have "amount n1 = amount n - min (amount m) (amount n)"
      using step(5) by (rule pe_fields)
    ultimately show ?thesis by simp
  qed (use nonneg in simp_all)
qed

lemma match_sell_new_qty:
  assumes "match_sell s trader tk pr n cs = Inr (s', n')"
  shows "qty n' = qty n"
  using assms
proof (induction cs arbitrary: s n)
  case Nil
  then show ?case by simp
next
  case (Cons m ms)
  from Cons.prems(1) show ?case
  proof (cases rule: match_sell_Cons_Inr)
    case (step s1 m1 n1)
    then show ?thesis using Cons.IH[OF step(6)] pe_qty[OF step(5)] by simp
  qed simp_all
qed

lemma market_sell_committed:
  assumes "create_market_sell_order base s tk quantity trader new_id now = Inr r" "status (snd r) \<noteq> CANCELLED"
  shows "status (snd r) = EXECUTED \<and> amount (snd r) = 0 \<and> filled (snd r) = quantity"
proof -
  obtain s' n where r: "r = (s', n)" by (cases r)
  from assms(1)[unfolded r create_market_sell_order_def] show ?thesis
  proof (cases rule: create_limit_sell_order_Inr)
    case handled
    then show ?thesis using assms(2) r by simp
  next
    case (committed s2)
    from try_sell_Inr[OF committed(1)] obtain s1 where
      m: "match_sell s trader tk None
              \<lparr>oid = new_id, trader_id = trader, symbol_ticker = tk, amount = quantity,
               filled = 0, price = None, direction = ASK, status = NEW, created_at = now\<rparr>
              (get_orders s tk BID (nat quantity)) = Inr (s1, n)"
      and f: "status n = EXECUTED"
      by (auto split: if_splits)
    from match_sell_new_order(7)[OF m] f have "amount n = 0"
      by (auto split: if_splits)
    moreover from match_sell_new_qty[OF m] have "amount n + filled n = quantity"
      by (simp add: qty_def)
    ultimately show ?thesis using f r by simp
  qed
qed

lemma create_sell_underfilled:
  assumes "\<forall>m \<in> set (get_orders s tk BID (nat quantity)). 0 \<le> amount m"
    and "sum_list (map amount (get_orders s tk BID (nat quantity))) < quantity"
    and "create_limit_sell_order base s tk quantity pr trader new_id now = Inr r"
  shows "status (snd r) \<noteq> EXECUTED"
proof -
  obtain s' n where r: "r = (s', n)" by (cases r)
  from assms(3)[unfolded r] show ?thesis
  proof (cases rule: create_limit_sell_order_Inr)
    case handled
    then show ?thesis using r by simp
  next
    case (committed s2)
    from try_sell_Inr[OF committed(1)] obtain s1 where
      m: "match_sell s trader tk pr
              \<lparr>oid = new_id, trader_id = trader, symbol_ticker = tk, amount = quantity,
               filled = 0, price = pr, direction = ASK, status = NEW, created_at = now\<rparr>
              (get_orders s tk BID (nat quantity)) = Inr (s1, n)"
      by blast
    have "0 < amount n"
      using match_sell_amount_lower[OF m assms(1)] assms(2) by simp
    with match_sell_new_order(7)[OF m] have "status n \<noteq> EXECUTED" by auto
    then show ?thesis using r by simp
  qed
qed

text \<open>
  Claim C4 as stated fails on the book with one ask of 2 at 50: a market buy of 5 does not
  leave one trade, filled 2, amount 3 and a balance of 900; nothing of the partial fill
  persists.
\<close>

theorem market_order_partial_fill_counterexample:
  "\<exists>r. create_market_buy_order ''RUB'' one_ask ''CCC'' 5 1 11 2 = Inr r
      \<and> \<not> (length (trades (fst r)) = 1 \<and> status (snd r) = CANCELLED \<and> filled (snd r) = 2
             \<and> amount (snd r) = 3 \<and> traders (fst r) 1 = Some 900)
      \<and> trades (fst r) = [] \<and> status (snd r) = CANCELLED \<and> filled (snd r) = 0
      \<and> amount (snd r) = 5 \<and> traders (fst r) 1 = Some 1000"
  by (simp add: one_ask_def eval_defs)

text \<open>
  Claim C4, as the code has it. A market order whose quantity is positive, as the request
  schema has it, and fits the \<^verbatim>\<open>Integer\<close> column returns an order, and it never rests: the returned order is EXECUTED, with nothing open and
  the whole quantity filled, or CANCELLED. A CANCELLED market order is rolled back as a
  whole: no trade persists, balances and positions are unchanged, and the persisted order
  has filled 0 and the requested quantity as amount. This is what happens when the fetched
  opposite orders, none with a negative amount, sum to less than the requested quantity.
\<close>

theorem unfilled_market_order_is_rolled_back:
  assumes "int32 quantity" "0 < quantity"
  shows "(\<exists>r. create_market_buy_order base s tk quantity trader new_id now = Inr r
          \<and> status (snd r) \<in> {EXECUTED, CANCELLED}
          \<and> (status (snd r) = EXECUTED \<longrightarrow> amount (snd r) = 0 \<and> filled (snd r) = quantity)
          \<and> (status (snd r) = CANCELLED \<longrightarrow>
               traders (fst r) = traders s \<and> positions (fst r) = positions s
               \<and> trades (fst r) = trades s \<and> orders (fst r) = orders s @ [snd r]
               \<and> amount (snd r) = quantity \<and> filled (snd r) = 0)
          \<and> ((\<forall>m \<in> set (get_orders s tk ASK (nat quantity)). 0 \<le> amount m)
                \<and> sum_list (map amount (get_orders s tk ASK (nat quantity))) < quantity
              \<longrightarrow> status (snd r) = CANCELLED))
   \<and> (\<exists>r. create_market_sell_order base s tk quantity trader new_id now = Inr r
          \<and> status (snd r) \<in> {EXECUTED, CANCELLED}
          \<and> (status (snd r) = EXECUTED \<longrightarrow> amount (snd r) = 0 \<and> filled (snd r) = quantity)
          \<and> (status (snd r) = CANCELLED \<longrightarrow>
               traders (fst r) = traders s \<and> positions (fst r) = positions s
               \<and> trades (fst r) = trades s \<and> orders (fst r) = orders s @ [snd r]
               \<and> amount (snd r) = quantity \<and> filled (snd r) = 0)
          \<and> ((\<forall>m \<in> set (get_orders s tk BID (nat quantity)). 0 \<le> amount m)
                \<and> sum_list (map amount (get_orders s tk BID (nat quantity))) < quantity
              \<longrightarrow> status (snd r) = CANCELLED))"
proof
  from create_buy_returns[OF assms(1), of None base s tk trader new_id now] obtain r where
    r: "create_market_buy_order base s tk quantity trader new_id now = Inr r"
    by (auto simp: create_market_buy_order_def)
  have r': "create_limit_buy_order base s tk quantity None trader new_id now = Inr r"
    using r by (simp add: create_market_buy_order_def)
  have 1: "status (snd r) \<in> {EXECUTED, CANCELLED}"
    using market_buy_committed[OF r] by auto
  have 2: "status (snd r) = EXECUTED \<longrightarrow> amount (snd r) = 0 \<and> filled (snd r) = quantity"
    using market_buy_committed[OF r] by auto
  have 3: "status (snd r) = CANCELLED \<longrightarrow>
               traders (fst r) = traders s \<and> positions (fst r) = positions s
               \<and> trades (fst r) = trades s \<and> orders (fst r) = orders s @ [snd r]
               \<and> amount (snd r) = quantity \<and> filled (snd r) = 0"
    using create_buy_rollback[OF r'] by auto
  have 4: "(\<forall>m \<in> set (get_orders s tk ASK (nat quantity)). 0 \<le> amount m)
                \<and> sum_list (map amount (get_orders s tk ASK (nat quantity))) < quantity
              \<longrightarrow> status (snd r) = CANCELLED"
    using create_buy_underfilled[OF _ _ r'] 1 by auto
  show "(\<exists>r. create_market_buy_order base s tk quantity trader new_id now = Inr r
          \<and> status (snd r) \<in> {EXECUTED, CANCELLED}
          \<and> (status (snd r) = EXECUTED \<longrightarrow> amount (snd r) = 0 \<and> filled (snd r) = quantity)
          \<and> (status (snd r) = CANCELLED \<longrightarrow>
               traders (fst r) = traders s \<and> positions (fst r) = positions s
               \<and> trades (fst r) = trades s \<and> orders (fst r) = orders s @ [snd r]
               \<and> amount (snd r) = quantity \<and> filled (snd r) = 0)
          \<and> ((\<forall>m \<in> set (get_orders s tk ASK (nat quantity)). 0 \<le> amount m)
                \<and> sum_list (map amount (get_orders s tk ASK (nat quantity))) < quantity
              \<longrightarrow> status (snd r) = CANCELLED))"
    using r 1 2 3 4 by blast
next
  from create_sell_returns[OF assms(1), of None base s tk trader new_id now] obtain r where
    r: "create_market_sell_order base s tk quantity trader new_id now = Inr r"
    by (auto simp: create_market_sell_order_def)
  have r': "create_limit_sell_order base s tk quantity None trader new_id now = Inr r"
    using r by (simp add: create_market_sell_order_def)
  have 1: "status (snd r) \<in> {EXECUTED, CANCELLED}"
    using market_sell_committed[OF r] by auto
  have 2: "status (snd r) = EXECUTED \<longrightarrow> amount (snd r) = 0 \<and> filled (snd r) = quantity"
    using market_sell_committed[OF r] by auto
  have 3: "status (snd r) = CANCELLED \<longrightarrow>
               traders (fst r) = traders s \<and> positions (fst r) = positions s
               \<and> trades (fst r) = trades s \<and> orders (fst r) = orders s @ [snd r]
               \<and> amount (snd r) = quantity \<and> filled (snd r) = 0"
    using create_sell_rollback[OF r'] by auto
  have 4: "(\<forall>m \<in> set (get_orders s tk BID (nat quantity)). 0 \<le> amount m)
                \<and> sum_list (map amount (get_orders s tk BID (nat quantity))) < quantity
              \<longrightarrow> status (snd r) = CANCELLED"
    using create_sell_underfilled[OF _ _ r'] 1 by auto
  show "(\<exists>r. create_market_sell_order base s tk quantity trader new_id now = Inr r
          \<and> status (snd r) \<in> {EXECUTED, CANCELLED}
          \<and> (status (snd r) = EXECUTED \<longrightarrow> amount (snd r) = 0 \<and> filled (snd r) = quantity)
          \<and> (status (snd r) = CANCELLED \<longrightarrow>
               traders (fst r) = traders s \<and> positions (fst r) = positions s
               \<and> trades (fst r) = trades s \<and> orders (fst r) = orders s @ [snd r]
               \<and> amount (snd r) = quantity \<and> filled (snd r) = 0)
          \<and> ((\<forall>m \<in> set (get_orders s tk BID (nat quantity)). 0 \<le> amount m)
                \<and> sum_list (map amount (get_orders s tk BID (nat quantity))) < quantity
              \<longrightarrow> status (snd r) = CANCELLED))"
    using r 1 2 3 4 by blast
qed

theorem unfilled_market_order_is_rolled_back_witness:
  "int32 5
   \<and> list_all (\<lambda>m. 0 \<le> amount m) (get_orders one_ask ''CCC'' ASK (nat 5))
   \<and> sum_list (map amount (get_orders one_ask ''CCC'' ASK (nat 5))) < 5
   \<and> list_all (\<lambda>m. 0 \<le> amount m) (get_orders one_ask ''CCC'' BID (nat 5))
   \<and> sum_list (map amount (get_orders one_ask ''CCC'' BID (nat 5))) < 5
   \<and> (\<exists>s1. buy one_ask 2 1 ''CCC'' (Some 50) 2 = Inr s1 \<and> length (trades s1) = 1
         \<and> traders s1 1 = Some 900)
   \<and> (\<exists>r. create_market_buy_order ''RUB'' one_ask ''CCC'' 5 1 11 2 = Inr r
         \<and> status (snd r) = CANCELLED \<and> traders (fst r) = traders one_ask
         \<and> positions (fst r) = positions one_ask \<and> trades (fst r) = []
         \<and> orders (fst r) = orders one_ask @ [snd r] \<and> amount (snd r) = 5
         \<and> filled (snd r) = 0)
   \<and> (\<exists>r. create_market_sell_order ''RUB'' one_ask ''CCC'' 5 1 11 2 = Inr r
         \<and> status (snd r) = CANCELLED \<and> traders (fst r) = traders one_ask
         \<and> positions (fst r) = positions one_ask \<and> trades (fst r) = []
         \<and> orders (fst r) = orders one_ask @ [snd r] \<and> amount (snd r) = 5
         \<and> filled (snd r) = 0)
   \<and> (\<exists>r. create_market_buy_order ''RUB'' one_ask ''CCC'' 2 1 11 2 = Inr r
         \<and> status (snd r) = EXECUTED \<and> amount (snd r) = 0 \<and> filled (snd r) = 2
         \<and> length (trades (fst r)) = 1 \<and> traders (fst r) 1 = Some 900)"
proof -
  have i: "int32 5" "int32 2" by (simp_all add: int32_def)
  have l: "list_all (\<lambda>m. 0 \<le> amount m) (get_orders one_ask ''CCC'' ASK (nat 5))"
    "sum_list (map amount (get_orders one_ask ''CCC'' ASK (nat 5))) < 5"
    "list_all (\<lambda>m. 0 \<le> amount m) (get_orders one_ask ''CCC'' BID (nat 5))"
    "sum_list (map amount (get_orders one_ask ''CCC'' BID (nat 5))) < 5"
    by (simp_all add: one_ask_def eval_defs)
  have b: "\<exists>s1. buy one_ask 2 1 ''CCC'' (Some 50) 2 = Inr s1 \<and> length (trades s1) = 1
         \<and> traders s1 1 = Some 900"
    by (simp add: one_ask_def eval_defs)
  have tr: "trades one_ask = []" by (simp add: one_ask_def)
  note t = unfilled_market_order_is_rolled_back[OF i(1), where base = "''RUB''" and s = one_ask
      and tk = "''CCC''" and trader = 1 and new_id = 11 and now = 2]
  have B: "\<exists>r. create_market_buy_order ''RUB'' one_ask ''CCC'' 5 1 11 2 = Inr r
         \<and> status (snd r) = CANCELLED \<and> traders (fst r) = traders one_ask
         \<and> positions (fst r) = positions one_ask \<and> trades (fst r) = []
         \<and> orders (fst r) = orders one_ask @ [snd r] \<and> amount (snd r) = 5
         \<and> filled (snd r) = 0"
    using t[THEN conjunct1] l(1,2) tr by (auto simp: list_all_iff)
  have A: "\<exists>r. create_market_sell_order ''RUB'' one_ask ''CCC'' 5 1 11 2 = Inr r
         \<and> status (snd r) = CANCELLED \<and> traders (fst r) = traders one_ask
         \<and> positions (fst r) = positions one_ask \<and> trades (fst r) = []
         \<and> orders (fst r) = orders one_ask @ [snd r] \<and> amount (snd r) = 5
         \<and> filled (snd r) = 0"
    using t[THEN conjunct2] l(3,4) tr by (auto simp: list_all_iff)
  have E: "\<exists>r. create_market_buy_order ''RUB'' one_ask ''CCC'' 2 1 11 2 = Inr r
         \<and> status (snd r) = EXECUTED \<and> amount (snd r) = 0 \<and> filled (snd r) = 2
         \<and> length (trades (fst r)) = 1 \<and> traders (fst r) 1 = Some 900"
    by (simp add: one_ask_def eval_defs)
  show ?thesis by (intro conjI i(1) l b B A E)
qed

section \<open>C8: submitting a resting limit order and cancelling it\<close>

lemma find_fresh_append:
  assumes "i \<notin> oid ` set xs"
  shows "find (\<lambda>ord. oid ord = i \<and> trader_id ord = t) (xs @ [n])
       = (if oid n = i \<and> trader_id n = t then Some n else None)"
  using assms by (induction xs) auto

lemma rewrite_fresh_append:
  assumes "oid n \<notin> oid ` set (orders s)" "oid n' = oid n" "orders s1 = orders s @ [n]"
  shows "orders (rewrite_order s1 n') = orders s @ [n']"
proof -
  have "map (\<lambda>ord. if oid ord = oid n' then n' else ord) (orders s) = orders s"
    using assms(1,2) by (intro map_idI) (auto simp: image_iff)
  then show ?thesis using assms(2,3) by (simp add: rewrite_order_def)
qed

lemma create_buy_rests_new:
  assumes "create_limit_buy_order base s tk quantity (Some p) trader new_id now = Inr r"
    and "status (snd r) = NEW"
  shows "\<exists>s2. freeze_balance base s trader base (quantity * p) = Inr s2
     \<and> r = (s2\<lparr>orders := orders s @ [\<lparr>oid = new_id, trader_id = trader, symbol_ticker = tk,
               amount = quantity, filled = 0, price = Some p, direction = BID, status = NEW,
               created_at = now\<rparr>]\<rparr>,
         \<lparr>oid = new_id, trader_id = trader, symbol_ticker = tk,
               amount = quantity, filled = 0, price = Some p, direction = BID, status = NEW,
               created_at = now\<rparr>)"
proof -
  let ?new = "\<lparr>oid = new_id, trader_id = trader, symbol_ticker = tk, amount = quantity,
               filled = 0, price = Some p, direction = BID, status = NEW, created_at = now\<rparr>"
  obtain s' n where r: "r = (s', n)" by (cases r)
  from assms(1)[unfolded r] show ?thesis
  proof (cases rule: create_limit_buy_order_Inr)
    case handled
    then show ?thesis using assms(2) r by simp
  next
    case (committed s2)
    have new: "status n = NEW" using assms(2) r by simp
    from try_buy_Inr[OF committed(1)] new obtain s1 where
      m: "match_buy s trader tk (Some p) ?new (get_orders s tk ASK (nat quantity)) = Inr (s1, n)"
      and f: "\<exists>q. price n = Some q \<and> freeze_balance base s1 trader base (amount n * q) = Inr s2"
      by auto
    from match_buy_new_order(7)[OF m] new have same: "s1 = s" "n = ?new"
      by (auto split: if_splits)
    have fr: "freeze_balance base s trader base (quantity * p) = Inr s2"
      using f same by auto
    moreover have "orders s2 = orders s"
      using freeze_tables(1)[OF fr] by simp
    ultimately show ?thesis using committed(2) same r by simp
  qed
qed

lemma create_sell_rests_new:
  assumes "create_limit_sell_order base s tk quantity (Some p) trader new_id now = Inr r"
    and "status (snd r) = NEW"
  shows "\<exists>s2. freeze_balance base s trader tk quantity = Inr s2
     \<and> r = (s2\<lparr>orders := orders s @ [\<lparr>oid = new_id, trader_id = trader, symbol_ticker = tk,
               amount = quantity, filled = 0, price = Some p, direction = ASK, status = NEW,
               created_at = now\<rparr>]\<rparr>,
         \<lparr>oid = new_id, trader_id = trader, symbol_ticker = tk,
               amount = quantity, filled = 0, price = Some p, direction = ASK, status = NEW,
               created_at = now\<rparr>)"
proof -
  let ?new = "\<lparr>oid = new_id, trader_id = trader, symbol_ticker = tk, amount = quantity,
               filled = 0, price = Some p, direction = ASK, status = NEW, created_at = now\<rparr>"
  obtain s' n where r: "r = (s', n)" by (cases r)
  from assms(1)[unfolded r] show ?thesis
  proof (cases rule: create_limit_sell_order_Inr)
    case handled
    then show ?thesis using assms(2) r by simp
  next
    case (committed s2)
    have new: "status n = NEW" using assms(2) r by simp
    from try_sell_Inr[OF committed(1)] new obtain s1 where
      m: "match_sell s trader tk (Some p) ?new (get_orders s tk BID (nat quantity)) = Inr (s1, n)"
      and f: "freeze_balance base s1 trader tk (amount n) = Inr s2"
      by auto
    from match_sell_new_order(7)[OF m] new have same: "s1 = s" "n = ?new"
      by (auto split: if_splits)
    have fr: "freeze_balance base s trader tk quantity = Inr s2"
      using f same by auto
    moreover have "orders s2 = orders s"
      using freeze_tables(1)[OF fr] by simp
    ultimately show ?thesis using committed(2) same r by simp
  qed
qed

text \<open>
  Freezing an amount and giving it back through \<open>change_balance\<close>, where the balance or
  the quantity is at most \<open>2 ^ 53\<close>, so that the difference and the sum are exact.
\<close>

lemma float_round_trip:
  assumes "\<not> bal < amt" "0 \<le> amt" "bal \<le> 2 ^ 53"
  shows "float_sub bal amt = bal - amt" "float_add (bal - amt) amt = bal"
proof -
  have a: "\<bar>amt\<bar> \<le> 2 ^ 53" "\<bar>bal - amt\<bar> \<le> 2 ^ 53" "\<bar>bal - amt + amt\<bar> \<le> 2 ^ 53"
    using assms by simp_all
  show "float_sub bal amt = bal - amt" using a(1,2) by (rule float_sub_exact)
  show "float_add (bal - amt) amt = bal" using float_add_exact[OF a(1,3)] by simp
qed

lemma freeze_then_change_back:
  assumes "freeze_balance base s tid tk amt = Inr s2" "0 \<le> amt"
    and "tk = base \<longrightarrow> (\<forall>b. traders s tid = Some b \<longrightarrow> b \<le> 2 ^ 53)"
    and "tk \<noteq> base \<longrightarrow> (\<forall>v. positions s (tid, tk) = Some v \<longrightarrow> v \<le> 2 ^ 53)"
  shows "\<exists>s3. change_balance base (s2\<lparr>orders := os\<rparr>) tid tk amt = Inr s3
      \<and> traders s3 = traders s \<and> positions s3 = positions s \<and> trades s3 = trades s
      \<and> orders s3 = os"
proof -
  from assms(1) obtain bal where bal: "traders s tid = Some bal"
    by (auto simp: freeze_balance_def split: option.splits)
  show ?thesis
  proof (cases "tk = base")
    case True
    then have ge: "\<not> bal < amt" and s2: "s2 = s\<lparr>traders := (traders s)(tid \<mapsto> float_sub bal amt)\<rparr>"
      using assms(1) bal by (auto simp: freeze_balance_def split: if_splits)
    have le: "bal \<le> 2 ^ 53" using assms(3) bal True by simp
    note rt = float_round_trip[OF ge assms(2) le]
    have "0 \<le> bal" using ge assms(2) by simp
    then show ?thesis
      using True bal s2 rt by (simp add: change_balance_def map_upd_triv)
  next
    case False
    then obtain v where v: "positions s (tid, tk) = Some v" and ge: "\<not> v < amt"
      and s2: "s2 = s\<lparr>positions := (positions s)((tid, tk) \<mapsto> float_sub v amt)\<rparr>"
      using assms(1) bal by (auto simp: freeze_balance_def split: option.splits if_splits)
    have le: "v \<le> 2 ^ 53" using assms(4) v False by simp
    note rt = float_round_trip[OF ge assms(2) le]
    have "0 \<le> v" using ge assms(2) by simp
    then show ?thesis
      using False bal v s2 rt by (simp add: change_balance_def map_upd_triv)
  qed
qed

lemma cancel_after_rest:
  fixes n :: order
  assumes fresh: "oid n \<notin> oid ` set (orders s)"
    and n: "status n = NEW" "price n = Some p" "trader_id n = trader"
    and fr: "freeze_balance base s trader
               (if direction n = ASK then symbol_ticker n else base)
               (if direction n = ASK then amount n else amount n * p) = Inr s2"
    and nonneg: "0 \<le> (if direction n = ASK then amount n else amount n * p)"
    and bb: "(if direction n = ASK then symbol_ticker n else base) = base
               \<longrightarrow> (\<forall>b. traders s trader = Some b \<longrightarrow> b \<le> 2 ^ 53)"
    and bv: "(if direction n = ASK then symbol_ticker n else base) \<noteq> base
               \<longrightarrow> (\<forall>v. positions s (trader, if direction n = ASK then symbol_ticker n
                                                 else base) = Some v \<longrightarrow> v \<le> 2 ^ 53)"
  shows "\<exists>s'. cancel_order base (s2\<lparr>orders := orders s @ [n]\<rparr>) (oid n) trader
            = Inr (s', Some (n\<lparr>status := CANCELLED\<rparr>))
      \<and> traders s' = traders s \<and> positions s' = positions s \<and> trades s' = trades s
      \<and> orders s' = orders s @ [n\<lparr>status := CANCELLED\<rparr>]"
proof -
  let ?s = "s2\<lparr>orders := orders s @ [n]\<rparr>"
  have fnd: "find (\<lambda>ord. oid ord = oid n \<and> trader_id ord = trader) (orders ?s) = Some n"
    using find_fresh_append[OF fresh, of trader n] n(3) by simp
  from freeze_then_change_back[OF fr nonneg bb bv, of "orders s @ [n]"] obtain s3 where
    s3: "change_balance base ?s trader
               (if direction n = ASK then symbol_ticker n else base)
               (if direction n = ASK then amount n else amount n * p) = Inr s3"
      "traders s3 = traders s" "positions s3 = positions s" "trades s3 = trades s"
      "orders s3 = orders s @ [n]"
    by blast
  have c: "cancel_order base ?s (oid n) trader
      = Inr (rewrite_order s3 (n\<lparr>status := CANCELLED\<rparr>), Some (n\<lparr>status := CANCELLED\<rparr>))"
    using fnd n s3(1)
    by (cases "direction n") (simp_all add: cancel_order_def FINAL_ORDER_STATUSES_def)
  have "orders (rewrite_order s3 (n\<lparr>status := CANCELLED\<rparr>)) = orders s @ [n\<lparr>status := CANCELLED\<rparr>]"
    using rewrite_fresh_append[OF fresh _ s3(5), of "n\<lparr>status := CANCELLED\<rparr>"] by simp
  then show ?thesis using c s3(2-4) by (simp add: rewrite_order_def)
qed

text \<open>
  Claim C8 as stated fails above \<open>2 ^ 53\<close>, where a double no longer holds every integer.
  Trader 1 holds \<open>2 ^ 53 + 2\<close> and bids for 1 unit at 1 on an empty book. The order rests;
  the freeze computes \<open>2 ^ 53 + 1\<close>, which rounds to \<open>2 ^ 53\<close>, and the refund of the
  cancellation computes \<open>2 ^ 53 + 1\<close> again: the balance after the cancellation is
  \<open>2 ^ 53\<close>, two less than before the submission.
\<close>

theorem submit_then_cancel_loses_two_counterexample:
  "traders large_balance 1 = Some 9007199254740994
   \<and> py_float 9007199254740994 = 9007199254740994
   \<and> (\<exists>r. create_limit_buy_order ''RUB'' large_balance ''DDD'' 1 (Some 1) 1 7 5 = Inr r
        \<and> status (snd r) = NEW \<and> traders (fst r) 1 = Some 9007199254740992
        \<and> (\<exists>s' c. cancel_order ''RUB'' (fst r) 7 1 = Inr (s', Some c)
              \<and> status c = CANCELLED \<and> traders s' 1 = Some 9007199254740992
              \<and> traders s' \<noteq> traders large_balance))"
proof -
  have f: "py_float 9007199254740994 = 9007199254740994"
    "float_sub 9007199254740994 1 = 9007199254740992"
    "float_add 9007199254740992 1 = 9007199254740992"
    by (simp_all add: float_sub_def float_add_def py_float_eval round_magnitude_eval[where e = 1])
  have r: "create_limit_buy_order ''RUB'' large_balance ''DDD'' 1 (Some 1) 1 7 5
      = Inr (large_balance\<lparr>traders := [1 \<mapsto> 9007199254740992],
               orders := [\<lparr>oid = 7, trader_id = 1, symbol_ticker = ''DDD'', amount = 1,
                   filled = 0, price = Some 1, direction = BID, status = NEW, created_at = 5\<rparr>]\<rparr>,
             \<lparr>oid = 7, trader_id = 1, symbol_ticker = ''DDD'', amount = 1,
                   filled = 0, price = Some 1, direction = BID, status = NEW, created_at = 5\<rparr>)"
    by (simp add: large_balance_def create_limit_buy_order_def try_buy_def get_orders_def
        freeze_balance_def add_and_commit_def fits_columns_def int32_def f Let_def)
  have c: "cancel_order ''RUB'' (large_balance\<lparr>traders := [1 \<mapsto> 9007199254740992],
               orders := [\<lparr>oid = 7, trader_id = 1, symbol_ticker = ''DDD'', amount = 1,
                   filled = 0, price = Some 1, direction = BID, status = NEW, created_at = 5\<rparr>]\<rparr>) 7 1
      = Inr (large_balance\<lparr>traders := [1 \<mapsto> 9007199254740992],
               orders := [\<lparr>oid = 7, trader_id = 1, symbol_ticker = ''DDD'', amount = 1,
                   filled = 0, price = Some 1, direction = BID, status = CANCELLED, created_at = 5\<rparr>]\<rparr>,
             Some \<lparr>oid = 7, trader_id = 1, symbol_ticker = ''DDD'', amount = 1,
                   filled = 0, price = Some 1, direction = BID, status = CANCELLED, created_at = 5\<rparr>)"
    by (simp add: large_balance_def cancel_order_def change_balance_def rewrite_order_def
        FINAL_ORDER_STATUSES_def f)
  have ne: "[1 \<mapsto> (9007199254740992::int)] \<noteq> traders large_balance"
  proof
    assume "[1 \<mapsto> (9007199254740992::int)] = traders large_balance"
    then have "[1 \<mapsto> (9007199254740992::int)] (1::nat) = traders large_balance 1" by simp
    then show False by (simp add: large_balance_def)
  qed
  show ?thesis
    unfolding r using c f(1) ne by (simp add: large_balance_def)
qed

text \<open>
  Claim C8, amended. A limit order that rests without matching anything (the returned
  status is NEW), submitted by a trader whose balance and whose quantity of the instrument
  are at most \<open>2 ^ 53\<close>, froze exactly \<open>quantity * price\<close> of base currency for a BID
  and \<open>quantity\<close> units of the instrument for an ASK; cancelling it at once succeeds and
  gives back the balances, positions and trades of the store before the submission, with
  only the CANCELLED order record added. The new order id is fresh, and quantity and price
  are positive as the request schema demands.
\<close>

theorem submit_then_cancel_restores_ledger:
  assumes "new_id \<notin> oid ` set (orders s)" "0 < quantity" "0 < p"
    and "Inr r \<in> {create_limit_buy_order base s tk quantity (Some p) trader new_id now,
                  create_limit_sell_order base s tk quantity (Some p) trader new_id now}"
    and "status (snd r) = NEW"
    and "\<forall>b. traders s trader = Some b \<longrightarrow> b \<le> 2 ^ 53"
    and "\<forall>v. positions s (trader, tk) = Some v \<longrightarrow> v \<le> 2 ^ 53"
  shows "freeze_balance base s trader
           (if direction (snd r) = ASK then tk else base)
           (if direction (snd r) = ASK then quantity else quantity * p)
         = Inr ((fst r)\<lparr>orders := orders s\<rparr>)
     \<and> (\<exists>s'. cancel_order base (fst r) new_id trader
                = Inr (s', Some ((snd r)\<lparr>status := CANCELLED\<rparr>))
          \<and> traders s' = traders s \<and> positions s' = positions s \<and> trades s' = trades s
          \<and> orders s' = orders s @ [(snd r)\<lparr>status := CANCELLED\<rparr>])"
proof -
  from assms(4) consider
    (bid) "create_limit_buy_order base s tk quantity (Some p) trader new_id now = Inr r"
    | (ask) "create_limit_sell_order base s tk quantity (Some p) trader new_id now = Inr r"
    by auto
  then show ?thesis
  proof cases
    case bid
    let ?n = "\<lparr>oid = new_id, trader_id = trader, symbol_ticker = tk,
               amount = quantity, filled = 0, price = Some p, direction = BID, status = NEW,
               created_at = now\<rparr>"
    from create_buy_rests_new[OF bid assms(5)]
    obtain s2 where fr: "freeze_balance base s trader base (quantity * p) = Inr s2"
      and r: "r = (s2\<lparr>orders := orders s @ [?n]\<rparr>, ?n)"
      by auto
    have o2: "orders s2 = orders s" using fr by (rule freeze_tables)
    have nn: "0 \<le> quantity * p" using assms(2,3) by simp
    have "\<exists>s'. cancel_order base (s2\<lparr>orders := orders s @ [?n]\<rparr>) (oid ?n) trader
            = Inr (s', Some (?n\<lparr>status := CANCELLED\<rparr>))
      \<and> traders s' = traders s \<and> positions s' = positions s \<and> trades s' = trades s
      \<and> orders s' = orders s @ [?n\<lparr>status := CANCELLED\<rparr>]"
      using assms(1,6) fr nn by (intro cancel_after_rest[where p = p]) simp_all
    moreover have "(fst r)\<lparr>orders := orders s\<rparr> = s2" using r o2 by simp
    ultimately show ?thesis using r fr by simp
  next
    case ask
    let ?n = "\<lparr>oid = new_id, trader_id = trader, symbol_ticker = tk,
               amount = quantity, filled = 0, price = Some p, direction = ASK, status = NEW,
               created_at = now\<rparr>"
    from create_sell_rests_new[OF ask assms(5)]
    obtain s2 where fr: "freeze_balance base s trader tk quantity = Inr s2"
      and r: "r = (s2\<lparr>orders := orders s @ [?n]\<rparr>, ?n)"
      by auto
    have o2: "orders s2 = orders s" using fr by (rule freeze_tables)
    have nn: "0 \<le> quantity" using assms(2) by simp
    have "\<exists>s'. cancel_order base (s2\<lparr>orders := orders s @ [?n]\<rparr>) (oid ?n) trader
            = Inr (s', Some (?n\<lparr>status := CANCELLED\<rparr>))
      \<and> traders s' = traders s \<and> positions s' = positions s \<and> trades s' = trades s
      \<and> orders s' = orders s @ [?n\<lparr>status := CANCELLED\<rparr>]"
      using assms(1,6,7) fr nn by (intro cancel_after_rest[where p = p]) simp_all
    moreover have "(fst r)\<lparr>orders := orders s\<rparr> = s2" using r o2 by simp
    ultimately show ?thesis using r fr by simp
  qed
qed

text \<open>
  The witness: on the empty book, trader 1 holds 100 of cash and 10 units of DDD. A bid
  for 10 units at 7 rests and freezes 70; an ask of 10 units at 7 rests and freezes the 10
  units; each cancellation gives the store back.
\<close>

theorem submit_then_cancel_restores_ledger_witness:
  "7 \<notin> oid ` set (orders no_orders) \<and> (0::int) < 10 \<and> (0::int) < 7
   \<and> traders no_orders 1 = Some 100 \<and> positions no_orders (1, ''DDD'') = Some 10
   \<and> (100::int) \<le> 2 ^ 53 \<and> (10::int) \<le> 2 ^ 53
   \<and> (\<exists>r. create_limit_buy_order ''RUB'' no_orders ''DDD'' 10 (Some 7) 1 7 5 = Inr r
        \<and> status (snd r) = NEW \<and> traders (fst r) 1 = Some 30
        \<and> (\<exists>s'. cancel_order ''RUB'' (fst r) 7 1 = Inr (s', Some ((snd r)\<lparr>status := CANCELLED\<rparr>))
              \<and> traders s' = traders no_orders \<and> positions s' = positions no_orders
              \<and> trades s' = trades no_orders
              \<and> orders s' = orders no_orders @ [(snd r)\<lparr>status := CANCELLED\<rparr>]))
   \<and> (\<exists>r. create_limit_sell_order ''RUB'' no_orders ''DDD'' 10 (Some 7) 1 7 5 = Inr r
        \<and> status (snd r) = NEW \<and> positions (fst r) (1, ''DDD'') = Some 0
        \<and> (\<exists>s'. cancel_order ''RUB'' (fst r) 7 1 = Inr (s', Some ((snd r)\<lparr>status := CANCELLED\<rparr>))
              \<and> traders s' = traders no_orders \<and> positions s' = positions no_orders
              \<and> trades s' = trades no_orders
              \<and> orders s' = orders no_orders @ [(snd r)\<lparr>status := CANCELLED\<rparr>]))"
proof -
  have h1: "7 \<notin> oid ` set (orders no_orders)" by (simp add: no_orders_def)
  have h0: "traders no_orders 1 = Some 100" "positions no_orders (1, ''DDD'') = Some 10"
    by (simp_all add: no_orders_def)
  have h6: "\<forall>b. traders no_orders 1 = Some b \<longrightarrow> b \<le> 2 ^ 53"
    and h7: "\<forall>v. positions no_orders (1, ''DDD'') = Some v \<longrightarrow> v \<le> 2 ^ 53"
    by (simp_all add: no_orders_def)
  obtain rb where b: "create_limit_buy_order ''RUB'' no_orders ''DDD'' 10 (Some 7) 1 7 5 = Inr rb"
    by (simp add: no_orders_def eval_defs)
  then have b1: "status (snd rb) = NEW" "traders (fst rb) 1 = Some 30"
    by (auto simp: no_orders_def eval_defs)
  have b4: "Inr rb \<in> {create_limit_buy_order ''RUB'' no_orders ''DDD'' 10 (Some 7) 1 7 5,
                       create_limit_sell_order ''RUB'' no_orders ''DDD'' 10 (Some 7) 1 7 5}"
    using b by simp
  obtain ra where a: "create_limit_sell_order ''RUB'' no_orders ''DDD'' 10 (Some 7) 1 7 5 = Inr ra"
    by (simp add: no_orders_def eval_defs)
  then have a1: "status (snd ra) = NEW" "positions (fst ra) (1, ''DDD'') = Some 0"
    by (auto simp: no_orders_def eval_defs)
  have a4: "Inr ra \<in> {create_limit_buy_order ''RUB'' no_orders ''DDD'' 10 (Some 7) 1 7 5,
                       create_limit_sell_order ''RUB'' no_orders ''DDD'' 10 (Some 7) 1 7 5}"
    using a by simp
  have B: "\<exists>r. create_limit_buy_order ''RUB'' no_orders ''DDD'' 10 (Some 7) 1 7 5 = Inr r
        \<and> status (snd r) = NEW \<and> traders (fst r) 1 = Some 30
        \<and> (\<exists>s'. cancel_order ''RUB'' (fst r) 7 1 = Inr (s', Some ((snd r)\<lparr>status := CANCELLED\<rparr>))
              \<and> traders s' = traders no_orders \<and> positions s' = positions no_orders
              \<and> trades s' = trades no_orders
              \<and> orders s' = orders no_orders @ [(snd r)\<lparr>status := CANCELLED\<rparr>])"
    using submit_then_cancel_restores_ledger[OF h1 _ _ b4 b1(1) h6 h7] b b1
    by (intro exI[of _ rb]) simp
  have A: "\<exists>r. create_limit_sell_order ''RUB'' no_orders ''DDD'' 10 (Some 7) 1 7 5 = Inr r
        \<and> status (snd r) = NEW \<and> positions (fst r) (1, ''DDD'') = Some 0
        \<and> (\<exists>s'. cancel_order ''RUB'' (fst r) 7 1 = Inr (s', Some ((snd r)\<lparr>status := CANCELLED\<rparr>))
              \<and> traders s' = traders no_orders \<and> positions s' = positions no_orders
              \<and> trades s' = trades no_orders
              \<and> orders s' = orders no_orders @ [(snd r)\<lparr>status := CANCELLED\<rparr>])"
    using submit_then_cancel_restores_ledger[OF h1 _ _ a4 a1(1) h6 h7] a a1
    by (intro exI[of _ ra]) simp
  show ?thesis using h1 h0 B A by simp
qed

section \<open>C9: the order book endpoint\<close>

lemma first_ask_of_same_price_asks:
  "get_orders same_price_asks ''AAA'' ASK (Suc 0) = [hd (orders same_price_asks)]"
  by (simp add: same_price_asks_def eval_defs)

lemma no_bid_of_same_price_asks: "get_orders same_price_asks ''AAA'' BID (Suc 0) = []"
  by (simp add: same_price_asks_def eval_defs)

lemma level_of_first_ask: "add_level [] (hd (orders same_price_asks)) = [(10, 3)]"
  by (simp add: same_price_asks_def add_level_def)

text \<open>
  Claim C9 fails on the code. With two active asks of 3 and 4 units at price 10 and a depth
  of 1, the endpoint reports 3 units at price 10, while the active orders at that price
  hold 7: the depth limits the orders that are fetched, before they are aggregated.
\<close>

theorem orderbook_depth_cuts_a_price_level:
  "get_orderbook same_price_asks ''AAA'' 1 = ([], [(10, 3)])
   \<and> sum_list (map amount (filter (\<lambda>ord. symbol_ticker ord = ''AAA'' \<and> direction ord = ASK
             \<and> status ord \<in> set ACTIVE_ORDER_STATUSES \<and> price ord = Some 10)
             (orders same_price_asks))) = 7"
proof
  show "get_orderbook same_price_asks ''AAA'' 1 = ([], [(10, 3)])"
    by (simp add: get_orderbook_def aggregate_orders_def first_ask_of_same_price_asks
        no_bid_of_same_price_asks level_of_first_ask)
  show "sum_list (map amount (filter (\<lambda>ord. symbol_ticker ord = ''AAA'' \<and> direction ord = ASK
             \<and> status ord \<in> set ACTIVE_ORDER_STATUSES \<and> price ord = Some 10)
             (orders same_price_asks))) = 7"
    by (simp add: same_price_asks_def ACTIVE_ORDER_STATUSES_def)
qed

section \<open>C7: when a cancellation succeeds\<close>

lemma find_unique:
  assumes "distinct (map f xs)" "x \<in> set xs" "P x" "\<And>y. P y \<Longrightarrow> f y = f x"
  shows "find P xs = Some x"
  using assms
proof (induction xs)
  case Nil
  then show ?case by simp
next
  case (Cons a xs)
  show ?case
  proof (cases "P a")
    case True
    then have fa: "f a = f x" by (rule Cons.prems(4))
    have "a = x"
    proof (rule ccontr)
      assume "a \<noteq> x"
      then have "x \<in> set xs" using Cons.prems(2) by simp
      then have "f x \<in> f ` set xs" by (rule imageI)
      then show False using Cons.prems(1) fa by simp
    qed
    then show ?thesis using True by simp
  next
    case False
    then have "x \<in> set xs" using Cons.prems(2,3) by auto
    moreover have "distinct (map f xs)" using Cons.prems(1) by simp
    ultimately have "find P xs = Some x"
      using Cons.prems(3,4) by (intro Cons.IH)
    then show ?thesis using False by simp
  qed
qed

lemma find_order_iff:
  assumes "distinct (map oid (orders s))"
  shows "find (\<lambda>ord. oid ord = i \<and> trader_id ord = t) (orders s) = Some x
     \<longleftrightarrow> x \<in> set (orders s) \<and> oid x = i \<and> trader_id x = t"
proof
  assume "find (\<lambda>ord. oid ord = i \<and> trader_id ord = t) (orders s) = Some x"
  then show "x \<in> set (orders s) \<and> oid x = i \<and> trader_id x = t"
    by (auto simp: find_Some_iff)
next
  assume x: "x \<in> set (orders s) \<and> oid x = i \<and> trader_id x = t"
  show "find (\<lambda>ord. oid ord = i \<and> trader_id ord = t) (orders s) = Some x"
  proof (rule find_unique[where f = oid])
    show "distinct (map oid (orders s))" by (rule assms)
    show "x \<in> set (orders s)" using x by simp
    show "oid x = i \<and> trader_id x = t" using x by simp
    show "\<And>y. oid y = i \<and> trader_id y = t \<Longrightarrow> oid y = oid x" using x by simp
  qed
qed

lemma change_balance_refund_ok:
  assumes "traders s tid \<noteq> None" "ledger_nonneg s" "0 \<le> amt"
  shows "\<exists>s1. change_balance base s tid tk amt = Inr s1"
proof -
  from assms(1) obtain b where b: "traders s tid = Some b" by auto
  then have b0: "0 \<le> b" using assms(2) by (auto simp: ledger_nonneg_def)
  then have nb: "\<not> float_add b amt < 0"
    using float_add_nonneg[OF b0 assms(3)] by simp
  show ?thesis
  proof (cases "positions s (tid, tk)")
    case None
    then show ?thesis using b nb by (simp add: change_balance_def)
  next
    case (Some q)
    then have "0 \<le> q" using assms(2) by (auto simp: ledger_nonneg_def)
    then have "\<not> float_add q amt < 0"
      using float_add_nonneg[OF _ assms(3), of q] by simp
    then show ?thesis using Some b nb by (simp add: change_balance_def)
  qed
qed

lemma cancel_new_limit_succeeds:
  assumes "find (\<lambda>ord. oid ord = i \<and> trader_id ord = t) (orders s) = Some x"
    and "status x = NEW" "price x = Some p"
    and "owners_exist s" "ledger_nonneg s" "book_nonneg s"
  shows "\<exists>s' c. cancel_order base s i t = Inr (s', Some c)"
proof -
  have x: "x \<in> set (orders s)" "trader_id x = t" using assms(1) by (auto simp: find_Some_iff)
  then have tr: "traders s (trader_id x) \<noteq> None" using assms(4) by (auto simp: owners_exist_def)
  have nn: "0 \<le> amount x" "0 \<le> p" using x assms(3,6) by (auto simp: book_nonneg_def)
  then have nn2: "0 \<le> amount x * p" by simp
  show ?thesis
  proof (cases "direction x")
    case ASK
    from change_balance_refund_ok[OF tr assms(5) nn(1), of base "symbol_ticker x"]
    obtain s1 where "change_balance base s (trader_id x) (symbol_ticker x) (amount x) = Inr s1"
      by blast
    then show ?thesis using assms(1-3) ASK
      by (simp add: cancel_order_def FINAL_ORDER_STATUSES_def)
  next
    case BID
    from change_balance_refund_ok[OF tr assms(5) nn2, of base base]
    obtain s1 where "change_balance base s (trader_id x) base (amount x * p) = Inr s1"
      by blast
    then show ?thesis using assms(1-3) BID
      by (simp add: cancel_order_def FINAL_ORDER_STATUSES_def)
  qed
qed

lemma cancel_success_needs_new_limit:
  assumes "cancel_order base s i t = Inr (s', Some c)"
  shows "\<exists>x. find (\<lambda>ord. oid ord = i \<and> trader_id ord = t) (orders s) = Some x
           \<and> status x = NEW \<and> price x \<noteq> None"
proof (cases "find (\<lambda>ord. oid ord = i \<and> trader_id ord = t) (orders s)")
  case None
  then show ?thesis using assms by (simp add: cancel_order_def)
next
  case (Some x)
  from cancel_order_Inr[OF assms Some] have "status x \<notin> FINAL_ORDER_STATUSES" "price x \<noteq> None"
    by auto
  moreover from this(1) have "status x = NEW"
    by (cases "status x") (simp_all add: FINAL_ORDER_STATUSES_def)
  ultimately show ?thesis using Some by simp
qed

text \<open>
  Claim C7. On a store that satisfies the schema (order ids are a primary key, every order
  owner has a trader row) and holds no negative balance, quantity, amount or price,
  \<open>cancel_order\<close> returns the cancelled order if and only if the trader owns an order with
  that id whose status is NEW and whose price is not null. An owned order with status
  EXECUTED, PARTIALLY_EXECUTED or CANCELLED is rejected as final, an owned NEW order without
  a price is rejected as a market order, and without an owned order nothing is returned.
\<close>

theorem cancel_succeeds_iff_new_limit_order:
  assumes "distinct (map oid (orders s))" "owners_exist s" "ledger_nonneg s" "book_nonneg s"
  shows "((\<exists>s' c. cancel_order base s order_id tid = Inr (s', Some c))
          \<longleftrightarrow> (\<exists>ord \<in> set (orders s). oid ord = order_id \<and> trader_id ord = tid
                 \<and> status ord = NEW \<and> price ord \<noteq> None))
    \<and> (\<forall>ord \<in> set (orders s). oid ord = order_id \<and> trader_id ord = tid \<longrightarrow>
          (status ord \<in> {EXECUTED, PARTIALLY_EXECUTED, CANCELLED}
             \<longrightarrow> cancel_order base s order_id tid = Inl OrderFinal)
        \<and> (status ord = NEW \<and> price ord = None
             \<longrightarrow> cancel_order base s order_id tid = Inl OrderIsMarket))
    \<and> ((\<forall>ord \<in> set (orders s). \<not> (oid ord = order_id \<and> trader_id ord = tid))
          \<longrightarrow> cancel_order base s order_id tid = Inr (s, None))"
proof (intro conjI)
  note f = find_order_iff[OF assms(1), of order_id tid]
  show "(\<exists>s' c. cancel_order base s order_id tid = Inr (s', Some c))
          \<longleftrightarrow> (\<exists>ord \<in> set (orders s). oid ord = order_id \<and> trader_id ord = tid
                 \<and> status ord = NEW \<and> price ord \<noteq> None)"
  proof
    assume "\<exists>s' c. cancel_order base s order_id tid = Inr (s', Some c)"
    then obtain s' c where "cancel_order base s order_id tid = Inr (s', Some c)" by blast
    from cancel_success_needs_new_limit[OF this] obtain x where
      x: "find (\<lambda>ord. oid ord = order_id \<and> trader_id ord = tid) (orders s) = Some x"
        "status x = NEW" "price x \<noteq> None"
      by blast
    from f[THEN iffD1, OF x(1)] x(2,3) show
      "\<exists>ord \<in> set (orders s). oid ord = order_id \<and> trader_id ord = tid
                 \<and> status ord = NEW \<and> price ord \<noteq> None"
      by blast
  next
    assume "\<exists>ord \<in> set (orders s). oid ord = order_id \<and> trader_id ord = tid
                 \<and> status ord = NEW \<and> price ord \<noteq> None"
    then obtain x p where x: "x \<in> set (orders s) \<and> oid x = order_id \<and> trader_id x = tid"
      "status x = NEW" "price x = Some p"
      by blast
    from f[THEN iffD2, OF x(1)] x(2,3) show "\<exists>s' c. cancel_order base s order_id tid = Inr (s', Some c)"
      using assms(2-4) by (rule cancel_new_limit_succeeds)
  qed
  show "\<forall>ord \<in> set (orders s). oid ord = order_id \<and> trader_id ord = tid \<longrightarrow>
          (status ord \<in> {EXECUTED, PARTIALLY_EXECUTED, CANCELLED}
             \<longrightarrow> cancel_order base s order_id tid = Inl OrderFinal)
        \<and> (status ord = NEW \<and> price ord = None
             \<longrightarrow> cancel_order base s order_id tid = Inl OrderIsMarket)"
  proof (intro ballI impI)
    fix x assume "x \<in> set (orders s)" "oid x = order_id \<and> trader_id x = tid"
    then have "x \<in> set (orders s) \<and> oid x = order_id \<and> trader_id x = tid" by simp
    then have "find (\<lambda>ord. oid ord = order_id \<and> trader_id ord = tid) (orders s) = Some x"
      by (rule f[THEN iffD2])
    then show "(status x \<in> {EXECUTED, PARTIALLY_EXECUTED, CANCELLED}
             \<longrightarrow> cancel_order base s order_id tid = Inl OrderFinal)
        \<and> (status x = NEW \<and> price x = None
             \<longrightarrow> cancel_order base s order_id tid = Inl OrderIsMarket)"
      by (auto simp: cancel_order_def FINAL_ORDER_STATUSES_def)
  qed
  show "(\<forall>ord \<in> set (orders s). \<not> (oid ord = order_id \<and> trader_id ord = tid))
          \<longrightarrow> cancel_order base s order_id tid = Inr (s, None)"
  proof
    assume "\<forall>ord \<in> set (orders s). \<not> (oid ord = order_id \<and> trader_id ord = tid)"
    then have "find (\<lambda>ord. oid ord = order_id \<and> trader_id ord = tid) (orders s) = None"
      by (simp add: find_None_iff)
    then show "cancel_order base s order_id tid = Inr (s, None)"
      by (simp add: cancel_order_def)
  qed
qed

theorem cancel_succeeds_iff_new_limit_order_witness:
  "distinct (map oid (orders mixed_book)) \<and> owners_exist mixed_book
   \<and> ledger_nonneg mixed_book \<and> book_nonneg mixed_book
   \<and> (\<exists>s' c. cancel_order ''RUB'' mixed_book 20 1 = Inr (s', Some c))
   \<and> cancel_order ''RUB'' mixed_book 21 2 = Inl OrderFinal
   \<and> cancel_order ''RUB'' mixed_book 22 2 = Inl OrderFinal
   \<and> cancel_order ''RUB'' mixed_book 23 1 = Inl OrderFinal
   \<and> cancel_order ''RUB'' mixed_book 24 1 = Inl OrderIsMarket
   \<and> cancel_order ''RUB'' mixed_book 20 2 = Inr (mixed_book, None)"
proof -
  have h1: "distinct (map oid (orders mixed_book))" by (simp add: mixed_book_def)
  have h2: "owners_exist mixed_book" by (simp add: mixed_book_def owners_exist_def)
  have h3: "ledger_nonneg mixed_book" by (simp add: mixed_book_def ledger_nonneg_def)
  have h4: "book_nonneg mixed_book" by (simp add: mixed_book_def book_nonneg_def)
  note t = cancel_succeeds_iff_new_limit_order[OF h1 h2 h3 h4, where base = "''RUB''"]
  have "\<exists>s' c. cancel_order ''RUB'' mixed_book 20 1 = Inr (s', Some c)"
    using t[of 20 1] by (simp add: mixed_book_def)
  moreover have "cancel_order ''RUB'' mixed_book 21 2 = Inl OrderFinal"
    using t[of 21 2] by (simp add: mixed_book_def)
  moreover have "cancel_order ''RUB'' mixed_book 22 2 = Inl OrderFinal"
    using t[of 22 2] by (simp add: mixed_book_def)
  moreover have "cancel_order ''RUB'' mixed_book 23 1 = Inl OrderFinal"
    using t[of 23 1] by (simp add: mixed_book_def)
  moreover have "cancel_order ''RUB'' mixed_book 24 1 = Inl OrderIsMarket"
    using t[of 24 1] by (simp add: mixed_book_def)
  moreover have "cancel_order ''RUB'' mixed_book 20 2 = Inr (mixed_book, None)"
    using t[of 20 2] by (simp add: mixed_book_def)
  ultimately show ?thesis using h1 h2 h3 h4 by simp
qed


section \<open>C1: price-time priority and maker price\<close>

lemma get_orders_is_prefix:
  "\<exists>rest. get_orders s tk d limit @ rest
     = sort_key (priority_key d) (filter (\<lambda>ord. symbol_ticker ord = tk \<and> direction ord = d
           \<and> status ord \<in> set ACTIVE_ORDER_STATUSES) (orders s))"
  unfolding get_orders_def by (rule exI, rule append_take_drop_id)

lemma priority_key_ASK:
  assumes "priority_key ASK a \<le> priority_key ASK b" "price a = Some pa" "price b = Some pb"
  shows "pa < pb \<or> (pa = pb \<and> created_at a \<le> created_at b)"
  using assms by (auto simp: priority_key_def)

lemma priority_key_BID:
  assumes "priority_key BID a \<le> priority_key BID b" "price a = Some pa" "price b = Some pb"
  shows "pa > pb \<or> (pa = pb \<and> created_at a \<le> created_at b)"
  using assms by (auto simp: priority_key_def)

lemma book_in_priority_order:
  "\<exists>rest. mset (get_orders s tk d limit @ rest)
        = mset (filter (\<lambda>ord. symbol_ticker ord = tk \<and> direction ord = d
                 \<and> status ord \<in> set ACTIVE_ORDER_STATUSES) (orders s))
     \<and> sorted_wrt (\<lambda>a b. priority_key d a \<le> priority_key d b) (get_orders s tk d limit @ rest)"
proof -
  let ?active = "filter (\<lambda>ord. symbol_ticker ord = tk \<and> direction ord = d
           \<and> status ord \<in> set ACTIVE_ORDER_STATUSES) (orders s)"
  from get_orders_is_prefix[of s tk d limit] obtain rest where
    r: "get_orders s tk d limit @ rest = sort_key (priority_key d) ?active"
    by blast
  have "sorted (map (priority_key d) (sort_key (priority_key d) ?active))"
    by (rule sorted_sort_key)
  then have "sorted_wrt (\<lambda>a b. priority_key d a \<le> priority_key d b) (sort_key (priority_key d) ?active)"
    by (simp add: sorted_map)
  then show ?thesis using r by (intro exI[of _ rest]) simp
qed

lemma buy_gate_crosses:
  "buy_gate pr m = Inr stop \<Longrightarrow> crosses BID pr m = stop"
  by (auto simp: buy_gate_def crosses_def split: option.splits)

lemma sell_gate_crosses:
  "sell_gate pr m = Inr stop \<Longrightarrow> crosses ASK pr m = stop"
  by (auto simp: sell_gate_def crosses_def split: option.splits)

lemma rewrite_order_tables [simp]:
  "trades (rewrite_order s m) = trades s" "traders (rewrite_order s m) = traders s"
  "positions (rewrite_order s m) = positions s"
  by (simp_all add: rewrite_order_def)

lemma match_buy_trades:
  assumes "match_buy s trader tk pr n cs = Inr (s', n')"
  shows "\<exists>ts. trades s' = trades s @ ts
     \<and> list_all2 (\<lambda>t (m, q). trader_from_id t = trader_id m \<and> trader_to_id t = trader
           \<and> trade_ticker t = tk \<and> trade_amount t = q \<and> price m = Some (trade_price t))
         ts (spec_fills BID pr (amount n) cs)"
  using assms
proof (induction cs arbitrary: s n)
  case Nil
  then show ?case by simp
next
  case (Cons m ms)
  from Cons.prems show ?case
  proof (cases rule: match_buy_Cons_Inr)
    case filled_up
    then show ?thesis by simp
  next
    case gate
    then show ?thesis by (simp add: buy_gate_crosses)
  next
    case (step s1 m1 n1)
    let ?q = "min (amount m) (amount n)"
    from buy_tables(2)[OF step(3)] obtain p where
      p: "price m = Some p" and t1: "trades s1 = trades s @ [\<lparr>trader_from_id = trader_id m,
          trader_to_id = trader, trade_ticker = tk, trade_amount = ?q, trade_price = p\<rparr>]"
      by blast
    have a1: "amount n1 = amount n - ?q" using step(5) by (rule pe_fields)
    from Cons.IH[OF step(6)] obtain ts where
      ts: "trades s' = trades (rewrite_order s1 m1) @ ts"
        "list_all2 (\<lambda>t (m, q). trader_from_id t = trader_id m \<and> trader_to_id t = trader
           \<and> trade_ticker t = tk \<and> trade_amount t = q \<and> price m = Some (trade_price t))
         ts (spec_fills BID pr (amount n1) ms)"
      by blast
    have sf: "spec_fills BID pr (amount n) (m # ms) = (m, ?q) # spec_fills BID pr (amount n1) ms"
      using step(1,2) a1 by (simp add: buy_gate_crosses)
    show ?thesis
      unfolding sf using ts t1 p
      by (intro exI[of _ "\<lparr>trader_from_id = trader_id m,
          trader_to_id = trader, trade_ticker = tk, trade_amount = ?q, trade_price = p\<rparr> # ts"]) simp
  qed
qed

lemma match_sell_trades:
  assumes "match_sell s trader tk pr n cs = Inr (s', n')"
  shows "\<exists>ts. trades s' = trades s @ ts
     \<and> list_all2 (\<lambda>t (m, q). trader_from_id t = trader \<and> trader_to_id t = trader_id m
           \<and> trade_ticker t = tk \<and> trade_amount t = q \<and> price m = Some (trade_price t))
         ts (spec_fills ASK pr (amount n) cs)"
  using assms
proof (induction cs arbitrary: s n)
  case Nil
  then show ?case by simp
next
  case (Cons m ms)
  from Cons.prems show ?case
  proof (cases rule: match_sell_Cons_Inr)
    case filled_up
    then show ?thesis by simp
  next
    case gate
    then show ?thesis by (simp add: sell_gate_crosses)
  next
    case (step s1 m1 n1)
    let ?q = "min (amount m) (amount n)"
    from sell_tables(2)[OF step(3)] obtain p where
      p: "price m = Some p" and t1: "trades s1 = trades s @ [\<lparr>trader_from_id = trader,
          trader_to_id = trader_id m, trade_ticker = tk, trade_amount = ?q, trade_price = p\<rparr>]"
      by blast
    have a1: "amount n1 = amount n - ?q" using step(5) by (rule pe_fields)
    from Cons.IH[OF step(6)] obtain ts where
      ts: "trades s' = trades (rewrite_order s1 m1) @ ts"
        "list_all2 (\<lambda>t (m, q). trader_from_id t = trader \<and> trader_to_id t = trader_id m
           \<and> trade_ticker t = tk \<and> trade_amount t = q \<and> price m = Some (trade_price t))
         ts (spec_fills ASK pr (amount n1) ms)"
      by blast
    have sf: "spec_fills ASK pr (amount n) (m # ms) = (m, ?q) # spec_fills ASK pr (amount n1) ms"
      using step(1,2) a1 by (simp add: sell_gate_crosses)
    show ?thesis
      unfolding sf using ts t1 p
      by (intro exI[of _ "\<lparr>trader_from_id = trader,
          trader_to_id = trader_id m, trade_ticker = tk, trade_amount = ?q, trade_price = p\<rparr> # ts"]) simp
  qed
qed

lemma create_buy_trades:
  assumes "create_limit_buy_order base s tk quantity pr trader new_id now = Inr r"
  shows "if status (snd r) = CANCELLED then trades (fst r) = trades s
   else \<exists>ts. trades (fst r) = trades s @ ts
     \<and> list_all2 (\<lambda>t (m, q). trader_from_id t = trader_id m \<and> trader_to_id t = trader
           \<and> trade_ticker t = tk \<and> trade_amount t = q \<and> price m = Some (trade_price t))
         ts (spec_fills BID pr quantity (get_orders s tk ASK (nat quantity)))"
proof -
  obtain s' n where r: "r = (s', n)" by (cases r)
  from assms[unfolded r] show ?thesis
  proof (cases rule: create_limit_buy_order_Inr)
    case handled
    then show ?thesis using r by simp
  next
    case (committed s2)
    from try_buy_Inr[OF committed(1)] obtain s1 where
      m: "match_buy s trader tk pr
              \<lparr>oid = new_id, trader_id = trader, symbol_ticker = tk, amount = quantity,
               filled = 0, price = pr, direction = BID, status = NEW, created_at = now\<rparr>
              (get_orders s tk ASK (nat quantity)) = Inr (s1, n)"
      and t2: "trades s2 = trades s1"
      by (auto split: if_splits dest: freeze_tables(2))
    from match_buy_trades[OF m] t2 committed(2,4) r show ?thesis by simp
  qed
qed

lemma create_sell_trades:
  assumes "create_limit_sell_order base s tk quantity pr trader new_id now = Inr r"
  shows "if status (snd r) = CANCELLED then trades (fst r) = trades s
   else \<exists>ts. trades (fst r) = trades s @ ts
     \<and> list_all2 (\<lambda>t (m, q). trader_from_id t = trader \<and> trader_to_id t = trader_id m
           \<and> trade_ticker t = tk \<and> trade_amount t = q \<and> price m = Some (trade_price t))
         ts (spec_fills ASK pr quantity (get_orders s tk BID (nat quantity)))"
proof -
  obtain s' n where r: "r = (s', n)" by (cases r)
  from assms[unfolded r] show ?thesis
  proof (cases rule: create_limit_sell_order_Inr)
    case handled
    then show ?thesis using r by simp
  next
    case (committed s2)
    from try_sell_Inr[OF committed(1)] obtain s1 where
      m: "match_sell s trader tk pr
              \<lparr>oid = new_id, trader_id = trader, symbol_ticker = tk, amount = quantity,
               filled = 0, price = pr, direction = ASK, status = NEW, created_at = now\<rparr>
              (get_orders s tk BID (nat quantity)) = Inr (s1, n)"
      and t2: "trades s2 = trades s1"
      by (auto split: if_splits dest: freeze_tables(2))
    from match_sell_trades[OF m] t2 committed(2,4) r show ?thesis by simp
  qed
qed

text \<open>
  Claim C1. The candidates that a submission fetches are a prefix of the active
  opposite-side orders of the instrument arranged in price-time priority (asks by ascending
  price, bids by descending price, equal prices by ascending creation time). A committed
  limit order appends to the trade journal exactly the fills of the walk of the
  specification over these candidates: the walk stops at the first candidate whose price
  crosses the limit or when nothing remains, each fill is \<open>min (amount m) remaining\<close>,
  and each trade carries the price of the resting order. A cancelled submission appends no
  trade (and a submission that raises leaves the store as it was).
\<close>

theorem matching_follows_price_time_priority:
  "(\<exists>rest. mset (get_orders s tk ASK (nat quantity) @ rest)
        = mset (filter (\<lambda>ord. symbol_ticker ord = tk \<and> direction ord = ASK
                 \<and> status ord \<in> set ACTIVE_ORDER_STATUSES) (orders s))
     \<and> sorted_wrt (\<lambda>a b. \<forall>pa pb. price a = Some pa \<and> price b = Some pb \<longrightarrow>
                        pa < pb \<or> (pa = pb \<and> created_at a \<le> created_at b))
          (get_orders s tk ASK (nat quantity) @ rest))
   \<and> (\<exists>rest. mset (get_orders s tk BID (nat quantity) @ rest)
        = mset (filter (\<lambda>ord. symbol_ticker ord = tk \<and> direction ord = BID
                 \<and> status ord \<in> set ACTIVE_ORDER_STATUSES) (orders s))
     \<and> sorted_wrt (\<lambda>a b. \<forall>pa pb. price a = Some pa \<and> price b = Some pb \<longrightarrow>
                        pa > pb \<or> (pa = pb \<and> created_at a \<le> created_at b))
          (get_orders s tk BID (nat quantity) @ rest))
   \<and> (\<forall>r. create_limit_buy_order base s tk quantity (Some p) trader new_id now = Inr r \<longrightarrow>
        (if status (snd r) = CANCELLED then trades (fst r) = trades s
         else \<exists>ts. trades (fst r) = trades s @ ts
           \<and> list_all2 (\<lambda>t (m, q). trader_from_id t = trader_id m \<and> trader_to_id t = trader
                 \<and> trade_ticker t = tk \<and> trade_amount t = q \<and> price m = Some (trade_price t))
               ts (spec_fills BID (Some p) quantity (get_orders s tk ASK (nat quantity)))))
   \<and> (\<forall>r. create_limit_sell_order base s tk quantity (Some p) trader new_id now = Inr r \<longrightarrow>
        (if status (snd r) = CANCELLED then trades (fst r) = trades s
         else \<exists>ts. trades (fst r) = trades s @ ts
           \<and> list_all2 (\<lambda>t (m, q). trader_from_id t = trader \<and> trader_to_id t = trader_id m
                 \<and> trade_ticker t = tk \<and> trade_amount t = q \<and> price m = Some (trade_price t))
               ts (spec_fills ASK (Some p) quantity (get_orders s tk BID (nat quantity)))))"
proof (intro conjI)
  from book_in_priority_order[of s tk ASK "nat quantity"] obtain rest where
    r: "mset (get_orders s tk ASK (nat quantity) @ rest)
        = mset (filter (\<lambda>ord. symbol_ticker ord = tk \<and> direction ord = ASK
                 \<and> status ord \<in> set ACTIVE_ORDER_STATUSES) (orders s))"
      "sorted_wrt (\<lambda>a b. priority_key ASK a \<le> priority_key ASK b)
         (get_orders s tk ASK (nat quantity) @ rest)"
    by blast
  have "sorted_wrt (\<lambda>a b. \<forall>pa pb. price a = Some pa \<and> price b = Some pb \<longrightarrow>
                        pa < pb \<or> (pa = pb \<and> created_at a \<le> created_at b))
          (get_orders s tk ASK (nat quantity) @ rest)"
    using r(2) by (rule sorted_wrt_mono_rel[rotated]) (blast dest: priority_key_ASK)
  with r(1) show "\<exists>rest. mset (get_orders s tk ASK (nat quantity) @ rest)
        = mset (filter (\<lambda>ord. symbol_ticker ord = tk \<and> direction ord = ASK
                 \<and> status ord \<in> set ACTIVE_ORDER_STATUSES) (orders s))
     \<and> sorted_wrt (\<lambda>a b. \<forall>pa pb. price a = Some pa \<and> price b = Some pb \<longrightarrow>
                        pa < pb \<or> (pa = pb \<and> created_at a \<le> created_at b))
          (get_orders s tk ASK (nat quantity) @ rest)"
    by blast
next
  from book_in_priority_order[of s tk BID "nat quantity"] obtain rest where
    r: "mset (get_orders s tk BID (nat quantity) @ rest)
        = mset (filter (\<lambda>ord. symbol_ticker ord = tk \<and> direction ord = BID
                 \<and> status ord \<in> set ACTIVE_ORDER_STATUSES) (orders s))"
      "sorted_wrt (\<lambda>a b. priority_key BID a \<le> priority_key BID b)
         (get_orders s tk BID (nat quantity) @ rest)"
    by blast
  have "sorted_wrt (\<lambda>a b. \<forall>pa pb. price a = Some pa \<and> price b = Some pb \<longrightarrow>
                        pa > pb \<or> (pa = pb \<and> created_at a \<le> created_at b))
          (get_orders s tk BID (nat quantity) @ rest)"
    using r(2) by (rule sorted_wrt_mono_rel[rotated]) (blast dest: priority_key_BID)
  with r(1) show "\<exists>rest. mset (get_orders s tk BID (nat quantity) @ rest)
        = mset (filter (\<lambda>ord. symbol_ticker ord = tk \<and> direction ord = BID
                 \<and> status ord \<in> set ACTIVE_ORDER_STATUSES) (orders s))
     \<and> sorted_wrt (\<lambda>a b. \<forall>pa pb. price a = Some pa \<and> price b = Some pb \<longrightarrow>
                        pa > pb \<or> (pa = pb \<and> created_at a \<le> created_at b))
          (get_orders s tk BID (nat quantity) @ rest)"
    by blast
qed (use create_buy_trades create_sell_trades in blast)+

theorem matching_follows_price_time_priority_witness:
  "(\<exists>r. create_limit_buy_order ''RUB'' two_asks ''BBB'' 5 (Some 11) 3 12 3 = Inr r
       \<and> status (snd r) = EXECUTED
       \<and> trades (fst r) =
           [\<lparr>trader_from_id = 1, trader_to_id = 3, trade_ticker = ''BBB'', trade_amount = 3,
              trade_price = 10\<rparr>,
            \<lparr>trader_from_id = 2, trader_to_id = 3, trade_ticker = ''BBB'', trade_amount = 2,
              trade_price = 11\<rparr>]
       \<and> (\<exists>ts. trades (fst r) = trades two_asks @ ts
            \<and> list_all2 (\<lambda>t (m, q). trader_from_id t = trader_id m \<and> trader_to_id t = 3
                  \<and> trade_ticker t = ''BBB'' \<and> trade_amount t = q
                  \<and> price m = Some (trade_price t))
                ts (spec_fills BID (Some 11) 5 (get_orders two_asks ''BBB'' ASK (nat 5)))))
   \<and> map oid (get_orders two_bids ''EEE'' BID (nat 4)) = [30, 31]
   \<and> (\<exists>r. create_limit_sell_order ''RUB'' two_bids ''EEE'' 4 (Some 50) 3 32 3 = Inr r
       \<and> status (snd r) = EXECUTED
       \<and> trades (fst r) =
           [\<lparr>trader_from_id = 3, trader_to_id = 1, trade_ticker = ''EEE'', trade_amount = 3,
              trade_price = 50\<rparr>,
            \<lparr>trader_from_id = 3, trader_to_id = 2, trade_ticker = ''EEE'', trade_amount = 1,
              trade_price = 50\<rparr>]
       \<and> (\<exists>ts. trades (fst r) = trades two_bids @ ts
            \<and> list_all2 (\<lambda>t (m, q). trader_from_id t = 3 \<and> trader_to_id t = trader_id m
                  \<and> trade_ticker t = ''EEE'' \<and> trade_amount t = q
                  \<and> price m = Some (trade_price t))
                ts (spec_fills ASK (Some 50) 4 (get_orders two_bids ''EEE'' BID (nat 4)))))"
proof -
  obtain rb where rb: "create_limit_buy_order ''RUB'' two_asks ''BBB'' 5 (Some 11) 3 12 3 = Inr rb"
    by (simp add: two_asks_def eval_defs)
  obtain rs where rs: "create_limit_sell_order ''RUB'' two_bids ''EEE'' 4 (Some 50) 3 32 3 = Inr rs"
    by (simp add: two_bids_def eval_defs)
  have b: "status (snd rb) = EXECUTED"
    "trades (fst rb) =
           [\<lparr>trader_from_id = 1, trader_to_id = 3, trade_ticker = ''BBB'', trade_amount = 3,
              trade_price = 10\<rparr>,
            \<lparr>trader_from_id = 2, trader_to_id = 3, trade_ticker = ''BBB'', trade_amount = 2,
              trade_price = 11\<rparr>]"
    using rb by (auto simp: two_asks_def eval_defs)
  have a: "status (snd rs) = EXECUTED"
    "trades (fst rs) =
           [\<lparr>trader_from_id = 3, trader_to_id = 1, trade_ticker = ''EEE'', trade_amount = 3,
              trade_price = 50\<rparr>,
            \<lparr>trader_from_id = 3, trader_to_id = 2, trade_ticker = ''EEE'', trade_amount = 1,
              trade_price = 50\<rparr>]"
    using rs by (auto simp: two_bids_def eval_defs)
  have o: "map oid (get_orders two_bids ''EEE'' BID (nat 4)) = [30, 31]"
    by (simp add: two_bids_def eval_defs)
  have tb: "\<exists>ts. trades (fst rb) = trades two_asks @ ts
            \<and> list_all2 (\<lambda>t (m, q). trader_from_id t = trader_id m \<and> trader_to_id t = 3
                  \<and> trade_ticker t = ''BBB'' \<and> trade_amount t = q
                  \<and> price m = Some (trade_price t))
                ts (spec_fills BID (Some 11) 5 (get_orders two_asks ''BBB'' ASK (nat 5)))"
    using matching_follows_price_time_priority[where s = two_asks and base = "''RUB''"
        and tk = "''BBB''" and quantity = 5 and p = 11 and trader = 3 and new_id = 12 and now = 3,
        THEN conjunct2, THEN conjunct2, THEN conjunct1, rule_format, OF rb]
      b(1)
    by simp
  have ta: "\<exists>ts. trades (fst rs) = trades two_bids @ ts
            \<and> list_all2 (\<lambda>t (m, q). trader_from_id t = 3 \<and> trader_to_id t = trader_id m
                  \<and> trade_ticker t = ''EEE'' \<and> trade_amount t = q
                  \<and> price m = Some (trade_price t))
                ts (spec_fills ASK (Some 50) 4 (get_orders two_bids ''EEE'' BID (nat 4)))"
    using matching_follows_price_time_priority[where s = two_bids and base = "''RUB''"
        and tk = "''EEE''" and quantity = 4 and p = 50 and trader = 3 and new_id = 32 and now = 3,
        THEN conjunct2, THEN conjunct2, THEN conjunct2, rule_format, OF rs]
      a(1)
    by simp
  have B: "\<exists>r. create_limit_buy_order ''RUB'' two_asks ''BBB'' 5 (Some 11) 3 12 3 = Inr r
       \<and> status (snd r) = EXECUTED
       \<and> trades (fst r) =
           [\<lparr>trader_from_id = 1, trader_to_id = 3, trade_ticker = ''BBB'', trade_amount = 3,
              trade_price = 10\<rparr>,
            \<lparr>trader_from_id = 2, trader_to_id = 3, trade_ticker = ''BBB'', trade_amount = 2,
              trade_price = 11\<rparr>]
       \<and> (\<exists>ts. trades (fst r) = trades two_asks @ ts
            \<and> list_all2 (\<lambda>t (m, q). trader_from_id t = trader_id m \<and> trader_to_id t = 3
                  \<and> trade_ticker t = ''BBB'' \<and> trade_amount t = q
                  \<and> price m = Some (trade_price t))
                ts (spec_fills BID (Some 11) 5 (get_orders two_asks ''BBB'' ASK (nat 5))))"
    using rb b tb by (intro exI[of _ rb] conjI)
  have A: "\<exists>r. create_limit_sell_order ''RUB'' two_bids ''EEE'' 4 (Some 50) 3 32 3 = Inr r
       \<and> status (snd r) = EXECUTED
       \<and> trades (fst r) =
           [\<lparr>trader_from_id = 3, trader_to_id = 1, trade_ticker = ''EEE'', trade_amount = 3,
              trade_price = 50\<rparr>,
            \<lparr>trader_from_id = 3, trader_to_id = 2, trade_ticker = ''EEE'', trade_amount = 1,
              trade_price = 50\<rparr>]
       \<and> (\<exists>ts. trades (fst r) = trades two_bids @ ts
            \<and> list_all2 (\<lambda>t (m, q). trader_from_id t = 3 \<and> trader_to_id t = trader_id m
                  \<and> trade_ticker t = ''EEE'' \<and> trade_amount t = q
                  \<and> price m = Some (trade_price t))
                ts (spec_fills ASK (Some 50) 4 (get_orders two_bids ''EEE'' BID (nat 4))))"
    using rs a ta by (intro exI[of _ rs] conjI)
  show ?thesis by (intro conjI B o A)
qed


section \<open>C10: the fetch limit\<close>

lemma match_buy_take:
  assumes "\<forall>m \<in> set cs. 1 \<le> amount m" "0 \<le> amount n" "nat (amount n) \<le> k"
  shows "match_buy s trader tk pr n (take k cs) = match_buy s trader tk pr n cs"
  using assms
proof (induction cs arbitrary: s n k)
  case Nil
  then show ?case by simp
next
  case (Cons m ms)
  show ?case
  proof (cases k)
    case 0
    then have "amount n = 0" using Cons.prems(2,3) by simp
    then show ?thesis using 0 by simp
  next
    case (Suc k')
    have step: "match_buy s2 trader tk pr n1 (take k' ms) = match_buy s2 trader tk pr n1 ms"
      if "amount n \<noteq> 0" "partially_execute_order n (min (amount m) (amount n)) = Inr n1"
      for s2 n1
    proof -
      have a: "amount n1 = amount n - min (amount m) (amount n)" using that(2) by (rule pe_fields)
      have "1 \<le> amount m" "1 \<le> amount n" using Cons.prems(1,2) that(1) by auto
      then have "0 \<le> amount n1" "nat (amount n1) \<le> k'"
        using a Cons.prems(3) Suc by auto
      with Cons.prems(1) show ?thesis by (intro Cons.IH) auto
    qed
    show ?thesis
      unfolding Suc take_Suc_Cons match_buy.simps
      by (auto simp: Let_def step split: sum.splits)
  qed
qed

lemma match_buy_exhausts:
  assumes "match_buy s trader tk pr n cs = Inr (s', n')"
    and "\<forall>m \<in> set cs. 1 \<le> amount m" "0 \<le> amount n" "nat (amount n) \<le> length cs"
    and "\<forall>m \<in> set cs. buy_gate pr m = Inr False"
  shows "amount n' = 0"
  using assms
proof (induction cs arbitrary: s n)
  case Nil
  then show ?case by simp
next
  case (Cons m ms)
  from Cons.prems(1) show ?case
  proof (cases rule: match_buy_Cons_Inr)
    case filled_up
    then show ?thesis by simp
  next
    case gate
    then show ?thesis using Cons.prems(5) by simp
  next
    case (step s1 m1 n1)
    have a: "amount n1 = amount n - min (amount m) (amount n)" using step(5) by (rule pe_fields)
    have "1 \<le> amount m" "1 \<le> amount n" using Cons.prems(2,3) step(1) by auto
    then have "0 \<le> amount n1" "nat (amount n1) \<le> length ms"
      using a Cons.prems(4) by auto
    with Cons.prems(2,5) show ?thesis by (intro Cons.IH[OF step(6)]) auto
  qed
qed

lemma match_sell_take:
  assumes "\<forall>m \<in> set cs. 1 \<le> amount m" "0 \<le> amount n" "nat (amount n) \<le> k"
  shows "match_sell s trader tk pr n (take k cs) = match_sell s trader tk pr n cs"
  using assms
proof (induction cs arbitrary: s n k)
  case Nil
  then show ?case by simp
next
  case (Cons m ms)
  show ?case
  proof (cases k)
    case 0
    then have "amount n = 0" using Cons.prems(2,3) by simp
    then show ?thesis using 0 by simp
  next
    case (Suc k')
    have step: "match_sell s2 trader tk pr n1 (take k' ms) = match_sell s2 trader tk pr n1 ms"
      if "amount n \<noteq> 0" "partially_execute_order n (min (amount m) (amount n)) = Inr n1"
      for s2 n1
    proof -
      have a: "amount n1 = amount n - min (amount m) (amount n)" using that(2) by (rule pe_fields)
      have "1 \<le> amount m" "1 \<le> amount n" using Cons.prems(1,2) that(1) by auto
      then have "0 \<le> amount n1" "nat (amount n1) \<le> k'"
        using a Cons.prems(3) Suc by auto
      with Cons.prems(1) show ?thesis by (intro Cons.IH) auto
    qed
    show ?thesis
      unfolding Suc take_Suc_Cons match_sell.simps
      by (auto simp: Let_def step split: sum.splits)
  qed
qed

lemma match_sell_exhausts:
  assumes "match_sell s trader tk pr n cs = Inr (s', n')"
    and "\<forall>m \<in> set cs. 1 \<le> amount m" "0 \<le> amount n" "nat (amount n) \<le> length cs"
    and "\<forall>m \<in> set cs. sell_gate pr m = Inr False"
  shows "amount n' = 0"
  using assms
proof (induction cs arbitrary: s n)
  case Nil
  then show ?case by simp
next
  case (Cons m ms)
  from Cons.prems(1) show ?case
  proof (cases rule: match_sell_Cons_Inr)
    case filled_up
    then show ?thesis by simp
  next
    case gate
    then show ?thesis using Cons.prems(5) by simp
  next
    case (step s1 m1 n1)
    have a: "amount n1 = amount n - min (amount m) (amount n)" using step(5) by (rule pe_fields)
    have "1 \<le> amount m" "1 \<le> amount n" using Cons.prems(2,3) step(1) by auto
    then have "0 \<le> amount n1" "nat (amount n1) \<le> length ms"
      using a Cons.prems(4) by auto
    with Cons.prems(2,5) show ?thesis by (intro Cons.IH[OF step(6)]) auto
  qed
qed

lemma get_orders_take:
  "k \<le> limit \<Longrightarrow> get_orders s tk d k = take k (get_orders s tk d limit)"
  by (simp add: get_orders_def min_def)

lemma get_orders_active:
  "m \<in> set (get_orders s tk d limit) \<Longrightarrow>
     m \<in> set (orders s) \<and> symbol_ticker m = tk \<and> direction m = d
     \<and> status m \<in> set ACTIVE_ORDER_STATUSES"
  by (auto simp: get_orders_def dest!: in_set_takeD)

text \<open>
  Claim C10. When every active order holds at least one unit, fetching only the first
  \<open>quantity\<close> candidates never changes what the matching loop does: the loop over the
  fetched candidates gives the result of the loop over any longer fetch, the whole book
  included. When the limit is reached and no fetched candidate stops the loop at the price
  gate, a loop that ends without an exception leaves nothing of the incoming order open.
\<close>

theorem fetch_limit_never_underfills:
  assumes "\<forall>m \<in> set (orders s). status m \<in> set ACTIVE_ORDER_STATUSES \<longrightarrow> 1 \<le> amount m"
    and "amount n = quantity" "0 < quantity" "nat quantity \<le> limit"
  shows "match_buy s trader tk pr n (get_orders s tk ASK (nat quantity))
           = match_buy s trader tk pr n (get_orders s tk ASK limit)
     \<and> match_sell s trader tk pr n (get_orders s tk BID (nat quantity))
           = match_sell s trader tk pr n (get_orders s tk BID limit)
     \<and> (length (get_orders s tk ASK (nat quantity)) = nat quantity
          \<and> (\<forall>m \<in> set (get_orders s tk ASK (nat quantity)). buy_gate pr m = Inr False)
          \<and> match_buy s trader tk pr n (get_orders s tk ASK (nat quantity)) = Inr (s', n')
        \<longrightarrow> amount n' = 0)
     \<and> (length (get_orders s tk BID (nat quantity)) = nat quantity
          \<and> (\<forall>m \<in> set (get_orders s tk BID (nat quantity)). sell_gate pr m = Inr False)
          \<and> match_sell s trader tk pr n (get_orders s tk BID (nat quantity)) = Inr (s', n')
        \<longrightarrow> amount n' = 0)"
proof -
  have amt: "\<forall>m \<in> set (get_orders s tk d k). 1 \<le> amount m" for d k
    using assms(1) get_orders_active[of _ s tk d k] by blast
  have n: "0 \<le> amount n" "nat (amount n) \<le> nat quantity"
    using assms(2,3) by simp_all
  have "match_buy s trader tk pr n (take (nat quantity) (get_orders s tk ASK limit))
      = match_buy s trader tk pr n (get_orders s tk ASK limit)"
    using amt n by (rule match_buy_take)
  then have 1: "match_buy s trader tk pr n (get_orders s tk ASK (nat quantity))
           = match_buy s trader tk pr n (get_orders s tk ASK limit)"
    using get_orders_take[OF assms(4), of s tk ASK] by simp
  have "match_sell s trader tk pr n (take (nat quantity) (get_orders s tk BID limit))
      = match_sell s trader tk pr n (get_orders s tk BID limit)"
    using amt n by (rule match_sell_take)
  then have 2: "match_sell s trader tk pr n (get_orders s tk BID (nat quantity))
           = match_sell s trader tk pr n (get_orders s tk BID limit)"
    using get_orders_take[OF assms(4), of s tk BID] by simp
  have 3: "amount n' = 0"
    if "length (get_orders s tk ASK (nat quantity)) = nat quantity"
      "\<forall>m \<in> set (get_orders s tk ASK (nat quantity)). buy_gate pr m = Inr False"
      "match_buy s trader tk pr n (get_orders s tk ASK (nat quantity)) = Inr (s', n')"
    using that(3) amt n(1) _ that(2) by (rule match_buy_exhausts) (simp add: that(1) assms(2))
  have 4: "amount n' = 0"
    if "length (get_orders s tk BID (nat quantity)) = nat quantity"
      "\<forall>m \<in> set (get_orders s tk BID (nat quantity)). sell_gate pr m = Inr False"
      "match_sell s trader tk pr n (get_orders s tk BID (nat quantity)) = Inr (s', n')"
    using that(3) amt n(1) _ that(2) by (rule match_sell_exhausts) (simp add: that(1) assms(2))
  show ?thesis using 1 2 3 4 by blast
qed

theorem fetch_limit_never_underfills_witness:
  "list_all (\<lambda>m. 1 \<le> amount m)
     (filter (\<lambda>m. status m \<in> set ACTIVE_ORDER_STATUSES) (orders two_asks))
   \<and> length (get_orders two_asks ''BBB'' ASK (nat 1)) = nat 1
   \<and> length (get_orders two_asks ''BBB'' ASK 2) = 2
   \<and> list_all (\<lambda>m. buy_gate (Some 11) m = Inr False) (get_orders two_asks ''BBB'' ASK (nat 1))
   \<and> (let n = \<lparr>oid = 12, trader_id = 3, symbol_ticker = ''BBB'', amount = 1, filled = 0,
                 price = Some 11, direction = BID, status = NEW, created_at = 3\<rparr>
      in match_buy two_asks 3 ''BBB'' (Some 11) n (get_orders two_asks ''BBB'' ASK (nat 1))
           = match_buy two_asks 3 ''BBB'' (Some 11) n (get_orders two_asks ''BBB'' ASK 2)
         \<and> (\<exists>s' n'. match_buy two_asks 3 ''BBB'' (Some 11) n
                         (get_orders two_asks ''BBB'' ASK (nat 1)) = Inr (s', n')
                \<and> amount n' = 0))
   \<and> list_all (\<lambda>m. 1 \<le> amount m)
     (filter (\<lambda>m. status m \<in> set ACTIVE_ORDER_STATUSES) (orders two_bids))
   \<and> length (get_orders two_bids ''EEE'' BID (nat 1)) = nat 1
   \<and> length (get_orders two_bids ''EEE'' BID 2) = 2
   \<and> list_all (\<lambda>m. sell_gate (Some 50) m = Inr False) (get_orders two_bids ''EEE'' BID (nat 1))
   \<and> (let n = \<lparr>oid = 32, trader_id = 3, symbol_ticker = ''EEE'', amount = 1, filled = 0,
                 price = Some 50, direction = ASK, status = NEW, created_at = 3\<rparr>
      in match_sell two_bids 3 ''EEE'' (Some 50) n (get_orders two_bids ''EEE'' BID (nat 1))
           = match_sell two_bids 3 ''EEE'' (Some 50) n (get_orders two_bids ''EEE'' BID 2)
         \<and> (\<exists>s' n'. match_sell two_bids 3 ''EEE'' (Some 50) n
                         (get_orders two_bids ''EEE'' BID (nat 1)) = Inr (s', n')
                \<and> amount n' = 0))"
proof -
  let ?n = "\<lparr>oid = 12, trader_id = 3, symbol_ticker = ''BBB'', amount = 1, filled = 0,
                 price = Some 11, direction = BID, status = NEW, created_at = 3\<rparr>"
  let ?k = "\<lparr>oid = 32, trader_id = 3, symbol_ticker = ''EEE'', amount = 1, filled = 0,
                 price = Some 50, direction = ASK, status = NEW, created_at = 3\<rparr>"
  have h1: "\<forall>m \<in> set (orders two_asks). status m \<in> set ACTIVE_ORDER_STATUSES \<longrightarrow> 1 \<le> amount m"
    by (simp add: two_asks_def)
  have h2: "amount ?n = 1" by simp
  have l1: "length (get_orders two_asks ''BBB'' ASK (nat 1)) = nat 1"
    and l2: "length (get_orders two_asks ''BBB'' ASK 2) = 2"
    and g: "\<forall>m \<in> set (get_orders two_asks ''BBB'' ASK (nat 1)). buy_gate (Some 11) m = Inr False"
    by (simp_all add: two_asks_def eval_defs)
  obtain s' n' where r: "match_buy two_asks 3 ''BBB'' (Some 11) ?n
                         (get_orders two_asks ''BBB'' ASK (nat 1)) = Inr (s', n')"
    by (simp add: two_asks_def eval_defs)
  have t: "match_buy two_asks 3 ''BBB'' (Some 11) ?n (get_orders two_asks ''BBB'' ASK (nat 1))
           = match_buy two_asks 3 ''BBB'' (Some 11) ?n (get_orders two_asks ''BBB'' ASK 2)"
    "length (get_orders two_asks ''BBB'' ASK (nat 1)) = nat 1
       \<and> (\<forall>m \<in> set (get_orders two_asks ''BBB'' ASK (nat 1)). buy_gate (Some 11) m = Inr False)
       \<and> match_buy two_asks 3 ''BBB'' (Some 11) ?n (get_orders two_asks ''BBB'' ASK (nat 1))
           = Inr (s', n')
     \<longrightarrow> amount n' = 0"
    using fetch_limit_never_underfills[OF h1 h2, of 2 3 "''BBB''" "Some 11" s' n']
    by simp_all
  from t(2) l1 g r have z: "amount n' = 0" by blast
  have i1: "\<forall>m \<in> set (orders two_bids). status m \<in> set ACTIVE_ORDER_STATUSES \<longrightarrow> 1 \<le> amount m"
    by (simp add: two_bids_def)
  have i2: "amount ?k = 1" by simp
  have m1: "length (get_orders two_bids ''EEE'' BID (nat 1)) = nat 1"
    and m2: "length (get_orders two_bids ''EEE'' BID 2) = 2"
    and f: "\<forall>m \<in> set (get_orders two_bids ''EEE'' BID (nat 1)). sell_gate (Some 50) m = Inr False"
    by (simp_all add: two_bids_def eval_defs)
  obtain s'' k' where q: "match_sell two_bids 3 ''EEE'' (Some 50) ?k
                         (get_orders two_bids ''EEE'' BID (nat 1)) = Inr (s'', k')"
    by (simp add: two_bids_def eval_defs)
  have u: "match_sell two_bids 3 ''EEE'' (Some 50) ?k (get_orders two_bids ''EEE'' BID (nat 1))
           = match_sell two_bids 3 ''EEE'' (Some 50) ?k (get_orders two_bids ''EEE'' BID 2)"
    "length (get_orders two_bids ''EEE'' BID (nat 1)) = nat 1
       \<and> (\<forall>m \<in> set (get_orders two_bids ''EEE'' BID (nat 1)). sell_gate (Some 50) m = Inr False)
       \<and> match_sell two_bids 3 ''EEE'' (Some 50) ?k (get_orders two_bids ''EEE'' BID (nat 1))
           = Inr (s'', k')
     \<longrightarrow> amount k' = 0"
    using fetch_limit_never_underfills[OF i1 i2, of 2 3 "''EEE''" "Some 50" s'' k']
    by simp_all
  from u(2) m1 f q have y: "amount k' = 0" by blast
  have A: "\<exists>s' n'. match_buy two_asks 3 ''BBB'' (Some 11) ?n
                         (get_orders two_asks ''BBB'' ASK (nat 1)) = Inr (s', n')
                \<and> amount n' = 0"
    using r z by blast
  have B: "\<exists>s' n'. match_sell two_bids 3 ''EEE'' (Some 50) ?k
                         (get_orders two_bids ''EEE'' BID (nat 1)) = Inr (s', n')
                \<and> amount n' = 0"
    using q y by blast
  show ?thesis
    unfolding Let_def list_all_iff using h1 l1 l2 g t(1) A i1 m1 m2 f u(1) B
    by (intro conjI) simp_all
qed


section \<open>C6: balances and quantities stay non-negative\<close>





lemma ledger_orders [simp]:
  "ledger_nonneg (s\<lparr>orders := os\<rparr>) = ledger_nonneg s"
  "ledger_nonneg (rewrite_order s m) = ledger_nonneg s"
  "ledger_floats (s\<lparr>orders := os\<rparr>) = ledger_floats s"
  "ledger_floats (rewrite_order s m) = ledger_floats s"
  by (simp_all add: ledger_nonneg_def ledger_floats_def)







text \<open>
  An overdraft below the precision of the stored balance does not raise: withdrawing
  \<open>2 ^ 53 + 1\<close> from a balance of \<open>2 ^ 53\<close> computes the sum 0 and commits it. The committed
  balance is not negative.
\<close>

lemma overdraft_below_precision_commits_zero:
  "change_trader_balance ''RUB'' (no_orders\<lparr>traders := [1 \<mapsto> 9007199254740992]\<rparr>) 1 ''RUB''
       (- 9007199254740993)
     = Inr (no_orders\<lparr>traders := [1 \<mapsto> 0]\<rparr>)"
proof -
  have "float_add 9007199254740992 (- 9007199254740993) = 0"
    by (simp add: float_add_def py_float_eval round_magnitude_eval[where e = 1])
  then show ?thesis
    by (simp add: change_trader_balance_def change_balance_def no_orders_def)
qed



section \<open>C2: the reservation protocol against the per-match debit\<close>
































end
